theory Spec2Isabelle
  imports Main "HOL-Library.AList" "HOL-Library.Word"
begin

section \<open>JavaScript values, strings and errors\<close>

text \<open>
  A parsed JSON payload. A response body read with \<open>response.text()\<close> is the string
  value \<open>JStr\<close>, so \<open>typeof data === "string"\<close> holds of the values \<open>JStr s\<close>. An object
  is its key-value list, with each key once; \<open>undefined\<close> is \<open>None\<close> of \<open>json option\<close>.
\<close>

datatype json =
    JNull
  | JBool bool
  | JNum int
  | JStr string
  | JArr "json list"
  | JObj "(string \<times> json) list"

text \<open>Truthiness of a JavaScript value.\<close>

fun truthy :: "json \<Rightarrow> bool" where
  "truthy JNull = False"
| "truthy (JBool b) = b"
| "truthy (JNum n) = (n \<noteq> 0)"
| "truthy (JStr s) = (s \<noteq> [])"
| "truthy (JArr xs) = True"
| "truthy (JObj kvs) = True"

text \<open>A thrown value: an \<open>Error\<close> (or \<open>DOMException\<close>) with its \<open>name\<close> and \<open>message\<close>.\<close>

datatype js_error = JsError (name: string) (message: string)

text \<open>A DOM element, identified by a name.\<close>

type_synonym element = string

text \<open>
  The value of a text input is a JavaScript string, a sequence of UTF-16 code units;
  \<open>utf16\<close> gives the code units of a string of ASCII characters. The other strings of the
  model (URLs, messages, header names) are lists of \<open>char\<close>.
\<close>

type_synonym code_unit = "16 word"

type_synonym js_string = "code_unit list"


text \<open>\<open>s.startsWith(p)\<close> and \<open>s.includes(sub)\<close>, the latter named \<open>str_includes\<close>.\<close>

fun starts_with :: "string \<Rightarrow> string \<Rightarrow> bool" where
  "starts_with s [] = True"
| "starts_with [] (p # ps) = False"
| "starts_with (c # cs) (p # ps) = (c = p \<and> starts_with cs ps)"

fun str_includes :: "string \<Rightarrow> string \<Rightarrow> bool" where
  "str_includes [] sub = (sub = [])"
| "str_includes (c # cs) sub = (starts_with (c # cs) sub \<or> str_includes cs sub)"

text \<open>The decimal digits of a number, as a template literal \<open>${n}\<close> prints them.\<close>

definition digit :: "nat \<Rightarrow> char" where
  "digit d =
     (if d = 0 then CHR ''0'' else if d = 1 then CHR ''1'' else if d = 2 then CHR ''2''
      else if d = 3 then CHR ''3'' else if d = 4 then CHR ''4'' else if d = 5 then CHR ''5''
      else if d = 6 then CHR ''6'' else if d = 7 then CHR ''7'' else if d = 8 then CHR ''8''
      else CHR ''9'')"

function string_of_nat :: "nat \<Rightarrow> string" where
  "string_of_nat n =
     (if n < 10 then [digit n] else string_of_nat (n div 10) @ [digit (n mod 10)])"
  by pat_completeness auto
termination
  by (relation "measure id") auto

declare string_of_nat.simps [simp del]

section \<open>The platform: responses, fetch and the helpers of \<open>utils/helpers.js\<close>\<close>

text \<open>
  A \<open>Response\<close>: its status line, what \<open>response.headers.get("content-type")\<close> returns
  (\<open>None\<close> is \<open>null\<close>), and what \<open>response.json()\<close> and \<open>response.text()\<close> settle with
  (\<open>Inl\<close> is a rejection, such as the \<open>SyntaxError\<close> of a malformed JSON body).
\<close>

record response =
  status :: nat
  statusText :: string
  contentType :: "string option"
  body_json :: "js_error + json"
  body_text :: "js_error + string"

text \<open>\<open>response.ok\<close>: the status is in the range 200 to 299.\<close>

definition ok :: "response \<Rightarrow> bool" where
  "ok r = (200 \<le> status r \<and> status r \<le> 299)"

text \<open>
  What happens while one call of \<open>makeRequest\<close> is suspended at \<open>await request(...)\<close>:
  the server answers, the transport fails, the call's own timeout timer fires, or other
  code calls \<open>cancelPendingRequest(url)\<close> with the call's URL or \<open>cancelAllRequests()\<close>.
\<close>

datatype network_event =
    Responds response
  | Fails js_error
  | TimesOut
  | CancelledByUrl
  | CancelledAll

datatype fetch_outcome = Fulfilled response | Rejected js_error

text \<open>The rejection of a \<open>fetch\<close> whose signal was aborted.\<close>

definition abort_error :: js_error where
  "abort_error = JsError ''AbortError'' ''The user aborted a request.''"

text \<open>\<open>fetch\<close>: a response of any status fulfils the promise; an aborted signal rejects it.\<close>

fun fetch :: "network_event \<Rightarrow> fetch_outcome" where
  "fetch (Responds r) = Fulfilled r"
| "fetch (Fails e) = Rejected e"
| "fetch TimesOut = Rejected abort_error"
| "fetch CancelledByUrl = Rejected abort_error"
| "fetch CancelledAll = Rejected abort_error"

text \<open>
  \<open>request\<close> of \<open>utils/helpers.js\<close> (lines 287 to 298): a response that is not \<open>ok\<close> is
  thrown as an \<open>Error\<close> whose message carries the status; a rejection is rethrown. The
  headers that \<open>request\<close> adds to the call (lines 271 to 285) and the console output are
  not part of the model.
\<close>

definition request :: "fetch_outcome \<Rightarrow> js_error + response" where
  "request f =
     (case f of
        Fulfilled r \<Rightarrow>
          if \<not> ok r then Inl (JsError ''Error'' (''HTTP error! status: '' @ string_of_nat (status r)))
          else Inr r
      | Rejected e \<Rightarrow> Inl e)"

section \<open>Options, pending requests and the manager's state\<close>

text \<open>A user-supplied callback, by what calling it does.\<close>

datatype callback = Returns | Throws js_error

datatype loading_ref = Selector string | Element element

datatype request_data = FormData "(string \<times> string) list" | JsonData json

text \<open>
  An options object: every key may be absent (\<open>None\<close>). \<open>config\<close> objects have the same
  shape. The keys \<open>url\<close> and \<open>resetForm\<close> are read by \<open>submitForm\<close> only.
\<close>

record options =
  timeout :: "int option"
  retries :: "int option"
  retryDelay :: "int option"
  showLoading :: "bool option"
  showErrors :: "bool option"
  cancelPending :: "bool option"
  http_method :: "string option"
  headers :: "(string \<times> string) list option"
  data :: "request_data option"
  loadingElement :: "loading_ref option"
  loadingText :: "string option"
  successCallback :: "callback option"
  errorCallback :: "callback option"
  url :: "string option"
  resetForm :: "bool option"

definition no_options :: options where
  "no_options = \<lparr>timeout = None, retries = None, retryDelay = None, showLoading = None,
     showErrors = None, cancelPending = None, http_method = None, headers = None, data = None,
     loadingElement = None, loadingText = None, successCallback = None, errorCallback = None,
     url = None, resetForm = None\<rparr>"

text \<open>\<open>this.defaultConfig\<close> (constructor, lines 16 to 22).\<close>

definition defaultConfig :: options where
  "defaultConfig = no_options\<lparr>timeout := Some 30000, retries := Some 3,
     retryDelay := Some 1000, showLoading := Some True, showErrors := Some True\<rparr>"

text \<open>One key of \<open>{ ...a, ...b }\<close>: the value of \<open>b\<close> when \<open>b\<close> has the key, else that of \<open>a\<close>.\<close>

definition override :: "'a option \<Rightarrow> 'a option \<Rightarrow> 'a option" where
  "override a b = (case b of Some v \<Rightarrow> Some v | None \<Rightarrow> a)"

definition spread :: "options \<Rightarrow> options \<Rightarrow> options" where
  "spread a b =
     \<lparr>timeout = override (timeout a) (timeout b),
      retries = override (retries a) (retries b),
      retryDelay = override (retryDelay a) (retryDelay b),
      showLoading = override (showLoading a) (showLoading b),
      showErrors = override (showErrors a) (showErrors b),
      cancelPending = override (cancelPending a) (cancelPending b),
      http_method = override (http_method a) (http_method b),
      headers = override (headers a) (headers b),
      data = override (data a) (data b),
      loadingElement = override (loadingElement a) (loadingElement b),
      loadingText = override (loadingText a) (loadingText b),
      successCallback = override (successCallback a) (successCallback b),
      errorCallback = override (errorCallback a) (errorCallback b),
      url = override (url a) (url b),
      resetForm = override (resetForm a) (resetForm b)\<rparr>"

text \<open>
  An entry of \<open>this.pendingRequests\<close> (lines 140 to 145). The controller and the timer are
  handles; the fields carry the prefix \<open>pr_\<close> because \<open>url\<close> and \<open>loadingElement\<close> are keys of
  the options too.
\<close>

record pending_request =
  pr_controller :: nat
  pr_url :: string
  pr_timeoutId :: nat
  pr_loadingElement :: "element option"

datatype request_body = FormBody "(string \<times> string) list" | JsonString json

record request_options =
  ro_method :: string
  ro_headers :: "(string \<times> string) list"
  ro_body :: "request_body option"

text \<open>The observable effects, in the order they happen.\<close>

datatype effect =
    ShowLoading element string
  | HideLoading element
  | Abort nat
  | SetTimeout nat "int option"
  | ClearTimeout nat
  | Fetch string request_options
  | Delay "int option"
  | ShowNotification json string
  | SuccessCallback json
  | ErrorCallback js_error
  | Navigate json
  | FormReset
  | ReportValidity
  | DispatchEvent string
  | SetInnerHTML element json
  | RenderSearchResults element json

text \<open>
  The state: the manager's \<open>pendingRequests\<close> map in insertion order (a JavaScript \<open>Map\<close>),
  the effects so far, the next fresh handle for controllers and timers, and the number of
  \<open>makeRequest\<close> calls made so far, which selects what the environment gives the next one.
\<close>

record state =
  pendingRequests :: "(string \<times> pending_request) list"
  effects :: "effect list"
  nextHandle :: nat
  calls :: nat

definition initial :: state where
  "initial = \<lparr>pendingRequests = [], effects = [], nextHandle = 0, calls = 0\<rparr>"

definition emit :: "effect list \<Rightarrow> state \<Rightarrow> state" where
  "emit es st = st\<lparr>effects := effects st @ es\<rparr>"

text \<open>
  The environment of a run: for the k-th call of \<open>makeRequest\<close>, the id that
  \<open>generateRequestId()\<close> returns and what happens while it awaits; the document's
  \<open>querySelector\<close>; \<open>window.location.href\<close>; and \<open>with_query url q\<close>, the string of
  \<open>new URL(url, window.location.origin)\<close> after \<open>searchParams.set("q", q)\<close>.
\<close>

record attempt =
  requestId :: string
  network :: network_event

record environment =
  attempts :: "nat \<Rightarrow> attempt"
  querySelector :: "string \<Rightarrow> element option"
  location_href :: string
  with_query :: "string \<Rightarrow> js_string \<Rightarrow> string"

section \<open>Cancellation (lines 406 to 431)\<close>

definition cancel_effects :: "pending_request \<Rightarrow> effect list" where
  "cancel_effects p =
     [Abort (pr_controller p), ClearTimeout (pr_timeoutId p)] @
     (case pr_loadingElement p of Some el \<Rightarrow> [HideLoading el] | None \<Rightarrow> [])"

text \<open>The body of the loop of \<open>cancelPendingRequest\<close>, for one entry of the map.\<close>

definition cancel_step :: "string \<Rightarrow> string \<times> pending_request \<Rightarrow> state \<Rightarrow> state" where
  "cancel_step u = (\<lambda>(rid, p) st.
     if pr_url p = u \<or> rid = u
     then (emit (cancel_effects p) st)\<lparr>pendingRequests := AList.delete rid (pendingRequests st)\<rparr>
     else st)"

definition cancelPendingRequest :: "string \<Rightarrow> state \<Rightarrow> state" where
  "cancelPendingRequest u st = fold (cancel_step u) (pendingRequests st) st"

definition cancelAllRequests :: "state \<Rightarrow> state" where
  "cancelAllRequests st =
     (fold (\<lambda>(rid, p). emit (cancel_effects p)) (pendingRequests st) st)\<lparr>pendingRequests := []\<rparr>"

section \<open>\<open>makeRequest\<close> (lines 85 to 218)\<close>

text \<open>
  Lines 96 to 117: the options handed to \<open>request\<close>. The body \<open>JsonString j\<close> stands for
  \<open>JSON.stringify(j)\<close>; the data are taken to be serialisable.
\<close>

definition requestOptions :: "options \<Rightarrow> request_options" where
  "requestOptions config =
     (let m = (case http_method config of Some m \<Rightarrow> if m = [] then ''GET'' else m | None \<Rightarrow> ''GET'');
          hs = fold (\<lambda>(k, v). AList.update k v)
                 (case headers config of Some h \<Rightarrow> h | None \<Rightarrow> [])
                 [(''Content-Type'', ''application/json''), (''X-Requested-With'', ''XMLHttpRequest'')]
      in case data config of
           Some d \<Rightarrow>
             if m \<in> set [''POST'', ''PUT'', ''PATCH'']
             then (case d of
                     FormData fd \<Rightarrow>
                       \<lparr>ro_method = m, ro_headers = AList.delete ''Content-Type'' hs,
                        ro_body = Some (FormBody fd)\<rparr>
                   | JsonData j \<Rightarrow>
                       if truthy j
                       then \<lparr>ro_method = m, ro_headers = hs, ro_body = Some (JsonString j)\<rparr>
                       else \<lparr>ro_method = m, ro_headers = hs, ro_body = None\<rparr>)
             else \<lparr>ro_method = m, ro_headers = hs, ro_body = None\<rparr>
         | None \<Rightarrow> \<lparr>ro_method = m, ro_headers = hs, ro_body = None\<rparr>)"

text \<open>
  Lines 120 to 130: the element whose loading indicator this call activates, if any. A
  selector is taken to be well formed, so that \<open>querySelector\<close> returns.
\<close>

definition resolve_loading :: "environment \<Rightarrow> options \<Rightarrow> element option" where
  "resolve_loading env config =
     (if showLoading config = Some True
      then (case loadingElement config of
              Some (Selector s) \<Rightarrow> if s = [] then None else querySelector env s
            | Some (Element el) \<Rightarrow> Some el
            | None \<Rightarrow> None)
      else None)"

text \<open>\<open>showLoading(element, text = "Loading...")\<close>.\<close>

definition show_loading :: "options \<Rightarrow> element \<Rightarrow> effect" where
  "show_loading config el =
     ShowLoading el (case loadingText config of Some t \<Rightarrow> t | None \<Rightarrow> ''Loading...'')"

text \<open>
  Lines 89 to 148, up to the \<open>await\<close>: cancel the pending requests to the URL, activate the
  loading indicator, create the controller and the timer, register the entry, call
  \<open>request\<close>. The result carries the locals \<open>controller\<close>, \<open>timeoutId\<close> and
  \<open>loadingElement\<close>, which are the fields of the entry.
\<close>

definition makeRequest_begin ::
  "environment \<Rightarrow> string \<Rightarrow> options \<Rightarrow> state \<Rightarrow> pending_request \<times> state" where
  "makeRequest_begin env u config st =
     (let rid = requestId (attempts env (calls st));
          st1 = (if cancelPending config \<noteq> Some False then cancelPendingRequest u st else st);
          le = resolve_loading env config;
          st2 = (case le of Some el \<Rightarrow> emit [show_loading config el] st1 | None \<Rightarrow> st1);
          entry = \<lparr>pr_controller = nextHandle st2, pr_url = u,
                   pr_timeoutId = Suc (nextHandle st2), pr_loadingElement = le\<rparr>;
          st3 = emit [SetTimeout (pr_timeoutId entry) (timeout config)] st2;
          st4 = st3\<lparr>pendingRequests := AList.update rid entry (pendingRequests st3),
                  nextHandle := nextHandle st3 + 2,
                  calls := Suc (calls st3)\<rparr>
      in (entry, emit [Fetch u (requestOptions config)] st4))"

text \<open>
  What the rest of the page does to the manager while the call is suspended: the timer
  callback of line 137 aborts the call's controller; the cancelling functions run.
\<close>

definition during_await :: "string \<Rightarrow> nat \<Rightarrow> network_event \<Rightarrow> state \<Rightarrow> state" where
  "during_await u c ev st =
     (case ev of
        TimesOut \<Rightarrow> emit [Abort c] st
      | CancelledByUrl \<Rightarrow> cancelPendingRequest u st
      | CancelledAll \<Rightarrow> cancelAllRequests st
      | _ \<Rightarrow> st)"

text \<open>
  The result objects of lines 176, 194 and 216: \<open>{ success: true, data, response }\<close> and
  \<open>{ success: false, error }\<close>, and the names of their properties.
\<close>

datatype result = Success json response | Failure string

definition result_keys :: "result \<Rightarrow> string list" where
  "result_keys res =
     (case res of
        Success d r \<Rightarrow> [''success'', ''data'', ''response'']
      | Failure msg \<Rightarrow> [''success'', ''error''])"

text \<open>Lines 162 to 169: the payload, parsed as JSON when the response declares JSON.\<close>

definition parse_body :: "response \<Rightarrow> js_error + json" where
  "parse_body r =
     (case contentType r of
        Some ct \<Rightarrow>
          if ct \<noteq> [] \<and> str_includes ct ''application/json'' then body_json r
          else map_sum id JStr (body_text r)
      | None \<Rightarrow> map_sum id JStr (body_text r))"

text \<open>Lines 150 to 179: the rest of the \<open>try\<close> block, once \<open>request\<close> has returned a response.\<close>

definition after_response ::
  "options \<Rightarrow> string \<Rightarrow> pending_request \<Rightarrow> response \<Rightarrow> state \<Rightarrow> (js_error + result) \<times> state" where
  "after_response config rid loc r st =
     (let st1 = emit [ClearTimeout (pr_timeoutId loc)] st;
          st2 = st1\<lparr>pendingRequests := AList.delete rid (pendingRequests st1)\<rparr>;
          st3 = (case pr_loadingElement loc of Some el \<Rightarrow> emit [HideLoading el] st2 | None \<Rightarrow> st2)
      in case parse_body r of
           Inl e \<Rightarrow> (Inl e, st3)
         | Inr d \<Rightarrow>
             if ok r
             then (case successCallback config of
                     Some cb \<Rightarrow>
                       (case cb of
                          Returns \<Rightarrow> (Inr (Success d r), emit [SuccessCallback d] st3)
                        | Throws e \<Rightarrow> (Inl e, emit [SuccessCallback d] st3))
                   | None \<Rightarrow> (Inr (Success d r), st3))
             else (Inl (JsError ''Error''
                          (''HTTP '' @ string_of_nat (status r) @ '': '' @ statusText r)), st3))"

text \<open>The whole \<open>try\<close> block (lines 89 to 179): \<open>Inl\<close> is the error that reaches \<open>catch\<close>.\<close>

definition try_block ::
  "environment \<Rightarrow> string \<Rightarrow> options \<Rightarrow> state \<Rightarrow> (js_error + result) \<times> state" where
  "try_block env u config st =
     (let a = attempts env (calls st);
          (loc, st1) = makeRequest_begin env u config st;
          st2 = during_await u (pr_controller loc) (network a) st1
      in case request (fetch (network a)) of
           Inl e \<Rightarrow> (Inl e, st2)
         | Inr r \<Rightarrow> after_response config (requestId a) loc r st2)"

text \<open>Lines 182 to 189: the \<open>catch\<close> block releases what the entry still holds.\<close>

definition catch_cleanup :: "string \<Rightarrow> state \<Rightarrow> state" where
  "catch_cleanup rid st =
     (case map_of (pendingRequests st) rid of
        Some p \<Rightarrow>
          (emit ([ClearTimeout (pr_timeoutId p)] @
                 (case pr_loadingElement p of Some el \<Rightarrow> [HideLoading el] | None \<Rightarrow> [])) st)
            \<lparr>pendingRequests := AList.delete rid (pendingRequests st)\<rparr>
      | None \<Rightarrow> st)"

text \<open>Line 198: \<open>config.retries > 0 && !error.message.includes("4")\<close>.\<close>

definition retry_wanted :: "options \<Rightarrow> js_error \<Rightarrow> bool" where
  "retry_wanted config e =
     ((case retries config of Some n \<Rightarrow> 0 < n | None \<Rightarrow> False) \<and> \<not> str_includes (message e) ''4'')"

text \<open>Lines 207 to 216: report the error and return the failure.\<close>

definition report_failure :: "options \<Rightarrow> js_error \<Rightarrow> state \<Rightarrow> (js_error + result) \<times> state" where
  "report_failure config e st =
     (let st1 = (if showErrors config = Some True
                 then emit [ShowNotification (JStr (message e)) ''danger''] st else st)
      in case errorCallback config of
           Some cb \<Rightarrow>
             (case cb of
                Returns \<Rightarrow> (Inr (Failure (message e)), emit [ErrorCallback e] st1)
              | Throws x \<Rightarrow> (Inl x, emit [ErrorCallback e] st1))
         | None \<Rightarrow> (Inr (Failure (message e)), st1))"

text \<open>
  \<open>makeRequest(url, options)\<close>, run to its settlement: \<open>Inl\<close> is a rejected promise,
  \<open>Inr\<close> the result object it resolves with.
\<close>

function makeRequest ::
  "environment \<Rightarrow> string \<Rightarrow> options \<Rightarrow> state \<Rightarrow> (js_error + result) \<times> state" where
  "makeRequest env u opts st =
     (let config = spread defaultConfig opts;
          rid = requestId (attempts env (calls st))
      in case try_block env u config st of
           (Inr res, st1) \<Rightarrow> (Inr res, st1)
         | (Inl e, st1) \<Rightarrow>
             (let st2 = catch_cleanup rid st1
              in if name e = ''AbortError'' then (Inr (Failure ''Request cancelled''), st2)
                 else if retry_wanted config e
                 then makeRequest env u
                        (config\<lparr>retries := map_option (\<lambda>n. n - 1) (retries config)\<rparr>)
                        (emit [Delay (retryDelay config)] st2)
                 else report_failure config e st2))"
  by pat_completeness auto
termination
  by (relation "measure (\<lambda>(env, u, opts, st).
        case retries (spread defaultConfig opts) of Some n \<Rightarrow> nat n | None \<Rightarrow> 0)")
     (auto simp: retry_wanted_def spread_def override_def split: option.splits)

declare makeRequest.simps [simp del]

section \<open>Forms: \<open>submitForm\<close> (lines 225 to 279)\<close>

text \<open>
  A form element: \<open>form.action\<close>, \<open>form.method\<close>, whether it has the attribute
  \<open>data-validate\<close>, what \<open>form.checkValidity()\<close> returns, the data \<open>new FormData(form)\<close>
  collects, its submit button, and the attributes \<open>data-search-url\<close> and
  \<open>data-result-container\<close> of a search form.
\<close>

record form =
  f_action :: string
  f_method :: string
  data_validate :: bool
  checkValidity :: bool
  form_data :: "(string \<times> string) list"
  submit_button :: "element option"
  data_search_url :: "string option"
  data_result_container :: "string option"

text \<open>
  \<open>data.key\<close> when it is read and tested in one step (\<open>if (result.data.redirect)\<close>): the
  value when it is truthy, \<open>None\<close> when the key is absent or its value falsy, and a
  \<open>TypeError\<close> when \<open>data\<close> is \<open>null\<close>.
\<close>

definition js_prop :: "json \<Rightarrow> string \<Rightarrow> js_error + json option" where
  "js_prop d k =
     (case d of
        JNull \<Rightarrow> Inl (JsError ''TypeError'' ''Cannot read properties of null'')
      | JObj kvs \<Rightarrow>
          (case map_of kvs k of
             Some v \<Rightarrow> if truthy v then Inr (Some v) else Inr None
           | None \<Rightarrow> Inr None)
      | _ \<Rightarrow> Inr None)"

text \<open>\<open>validateForm\<close> (lines 481 to 490).\<close>

definition validateForm :: "form \<Rightarrow> state \<Rightarrow> bool \<times> state" where
  "validateForm f st =
     (if \<not> checkValidity f then (False, emit [ReportValidity] st) else (True, st))"

text \<open>Lines 250 to 278: what \<open>submitForm\<close> does with the result of \<open>makeRequest\<close>.\<close>

definition submit_outcome :: "options \<Rightarrow> result \<Rightarrow> state \<Rightarrow> (js_error + result) \<times> state" where
  "submit_outcome opts res st =
     (case res of
        Success d r \<Rightarrow>
          (case js_prop d ''redirect'' of
             Inl e \<Rightarrow> (Inl e, st)
           | Inr red \<Rightarrow>
               (let st1 = (case red of
                             Some target \<Rightarrow> emit [Navigate target] st
                           | None \<Rightarrow>
                               (case js_prop d ''message'' of
                                  Inr (Some m) \<Rightarrow> emit [ShowNotification m ''success''] st
                                | _ \<Rightarrow> st));
                    st2 = (if resetForm opts \<noteq> Some False then emit [FormReset] st1 else st1)
                in (Inr res, emit [DispatchEvent ''ajaxSuccess''] st2)))
      | Failure msg \<Rightarrow> (Inr res, emit [DispatchEvent ''ajaxError''] st))"

definition submitForm ::
  "environment \<Rightarrow> form \<Rightarrow> options \<Rightarrow> state \<Rightarrow> (js_error + result) \<times> state" where
  "submitForm env f opts st =
     (let config =
            spread (no_options\<lparr>http_method := Some (if f_method f \<noteq> [] then f_method f else ''POST''),
                                data := Some (FormData (form_data f)),
                                loadingElement := map_option Element (submit_button f),
                                loadingText := Some ''Submitting...''\<rparr>) opts;
          u = (case url opts of
                 Some x \<Rightarrow> if x \<noteq> [] then x
                           else if f_action f \<noteq> [] then f_action f else location_href env
               | None \<Rightarrow> if f_action f \<noteq> [] then f_action f else location_href env);
          (isValid, st1) = (if data_validate f then validateForm f st else (True, st))
      in if \<not> isValid then (Inr (Failure ''Form validation failed''), st1)
         else (case makeRequest env u config st1 of
                 (Inl e, st2) \<Rightarrow> (Inl e, st2)
               | (Inr res, st2) \<Rightarrow> submit_outcome opts res st2))"

section \<open>Search: \<open>handleSearch\<close> (lines 286 to 328) and its debounce (lines 63 to 77)\<close>















section \<open>Runs of the manager as sequences of synchronous segments\<close>

text \<open>
  Between two suspension points the code runs without interruption. The segments that
  touch \<open>pendingRequests\<close>: a call of \<open>makeRequest\<close> up to its \<open>await\<close>; the continuation
  of a call whose request returned a response; the \<open>catch\<close> block of a call, which
  deregisters it; and the two cancelling functions. A retry is a \<open>Catch\<close> followed, after
  the delay, by another \<open>Begin\<close>.
\<close>

datatype segment =
    Begin string options
  | Respond options string pending_request response
  | Catch string
  | CancelPending string
  | CancelAll

fun run_segment :: "environment \<Rightarrow> segment \<Rightarrow> state \<Rightarrow> state" where
  "run_segment env (Begin u opts) st = snd (makeRequest_begin env u (spread defaultConfig opts) st)"
| "run_segment env (Respond config rid loc r) st = snd (after_response config rid loc r st)"
| "run_segment env (Catch rid) st = catch_cleanup rid st"
| "run_segment env (CancelPending u) st = cancelPendingRequest u st"
| "run_segment env CancelAll st = cancelAllRequests st"

definition run :: "environment \<Rightarrow> segment list \<Rightarrow> state \<Rightarrow> state" where
  "run env segs st = fold (run_segment env) segs st"


section \<open>Observations on states\<close>

definition is_fetch :: "effect \<Rightarrow> bool" where
  "is_fetch e = (case e of Fetch u ro \<Rightarrow> True | _ \<Rightarrow> False)"

definition is_delay :: "effect \<Rightarrow> bool" where
  "is_delay e = (case e of Delay ms \<Rightarrow> True | _ \<Rightarrow> False)"

text \<open>The number of network calls issued so far, and of retry delays waited.\<close>

definition fetches :: "state \<Rightarrow> nat" where
  "fetches st = length (filter is_fetch (effects st))"

definition delays :: "state \<Rightarrow> nat" where
  "delays st = length (filter is_delay (effects st))"

text \<open>The retries a call may make: \<open>config.retries\<close>, when it is positive.\<close>

definition retry_budget :: "options \<Rightarrow> nat" where
  "retry_budget opts = (case retries (spread defaultConfig opts) of Some n \<Rightarrow> nat n | None \<Rightarrow> 0)"

text \<open>The URLs of the network calls issued so far.\<close>

definition fetched_urls :: "state \<Rightarrow> string list" where
  "fetched_urls st = concat (map (\<lambda>e. case e of Fetch u ro \<Rightarrow> [u] | _ \<Rightarrow> []) (effects st))"

text \<open>The values assigned to \<open>window.location.href\<close>, and the number of form resets.\<close>

definition navigations :: "state \<Rightarrow> json list" where
  "navigations st = concat (map (\<lambda>e. case e of Navigate v \<Rightarrow> [v] | _ \<Rightarrow> []) (effects st))"

definition resets :: "state \<Rightarrow> nat" where
  "resets st = length (filter (\<lambda>e. e = FormReset) (effects st))"

text \<open>The effects that \<open>makeRequest\<close> and the cancelling functions can have.\<close>

definition request_effect :: "effect \<Rightarrow> bool" where
  "request_effect e =
     (case e of
        Navigate v \<Rightarrow> False
      | FormReset \<Rightarrow> False
      | ReportValidity \<Rightarrow> False
      | DispatchEvent n \<Rightarrow> False
      | SetInnerHTML el v \<Rightarrow> False
      | RenderSearchResults el v \<Rightarrow> False
      | _ \<Rightarrow> True)"

text \<open>From one state to a later one, only such effects were added.\<close>

definition only_requests :: "state \<Rightarrow> state \<Rightarrow> bool" where
  "only_requests st st' = (\<exists>es. effects st' = effects st @ es \<and> list_all request_effect es)"

text \<open>
  The activations and deactivations of the indicator of one element, and whether no
  pending request holds that element.
\<close>

definition on_element :: "element \<Rightarrow> effect \<Rightarrow> bool" where
  "on_element el e =
     (case e of ShowLoading x t \<Rightarrow> x = el | HideLoading x \<Rightarrow> x = el | _ \<Rightarrow> False)"

definition indicator_trace :: "element \<Rightarrow> state \<Rightarrow> effect list" where
  "indicator_trace el st = filter (on_element el) (effects st)"

definition indicator_free :: "element \<Rightarrow> state \<Rightarrow> bool" where
  "indicator_free el st = (Some el \<notin> set (map (pr_loadingElement \<circ> snd) (pendingRequests st)))"

text \<open>
  The schedule of the calls so far: the indicators they activated, the timeouts of the
  timers they set, what they fetched, the retry delays they waited and what they notified.
  It leaves out what depends on the other pending requests and on the handles.
\<close>

datatype step =
    Shows element string
  | Timer "int option"
  | Fetches string request_options
  | Waits "int option"
  | Notifies json string

definition summary :: "effect \<Rightarrow> step list" where
  "summary e =
     (case e of
        ShowLoading el t \<Rightarrow> [Shows el t]
      | SetTimeout h ms \<Rightarrow> [Timer ms]
      | Fetch u ro \<Rightarrow> [Fetches u ro]
      | Delay ms \<Rightarrow> [Waits ms]
      | ShowNotification m k \<Rightarrow> [Notifies m k]
      | _ \<Rightarrow> [])"

definition schedule :: "state \<Rightarrow> step list" where
  "schedule st = concat (map summary (effects st))"

text \<open>What one attempt of a call with the configuration \<open>config\<close> adds to the schedule.\<close>

definition attempt_steps :: "environment \<Rightarrow> string \<Rightarrow> options \<Rightarrow> step list" where
  "attempt_steps env u config =
     (case resolve_loading env config of
        Some el \<Rightarrow> [Shows el (case loadingText config of Some t \<Rightarrow> t | None \<Rightarrow> ''Loading...'')]
      | None \<Rightarrow> []) @
     [Timer (timeout config), Fetches u (requestOptions config)]"

text \<open>The entries that \<open>cancelPendingRequest(u)\<close> cancels (line 408).\<close>

definition cancelled_by :: "string \<Rightarrow> string \<times> pending_request \<Rightarrow> bool" where
  "cancelled_by u = (\<lambda>(rid, p). pr_url p = u \<or> rid = u)"

text \<open>The registry's entries for a URL, and the invariant of one entry per URL.\<close>

definition entries_for :: "string \<Rightarrow> state \<Rightarrow> (string \<times> pending_request) list" where
  "entries_for u st = filter (\<lambda>(rid, p). pr_url p = u) (pendingRequests st)"


section \<open>Example inputs\<close>

text \<open>A response with a given status and a plain-text body, and one with a JSON payload.\<close>

definition example_response :: "nat \<Rightarrow> response" where
  "example_response n =
     \<lparr>status = n, statusText = [], contentType = None, body_json = Inr JNull,
      body_text = Inr []\<rparr>"

definition json_response :: "json \<Rightarrow> response" where
  "json_response d =
     \<lparr>status = 200, statusText = ''OK'', contentType = Some ''application/json'',
      body_json = Inr d, body_text = Inr []\<rparr>"

text \<open>A form with a required field left empty, a valid form, and a search form.\<close>

definition example_form :: form where
  "example_form =
     \<lparr>f_action = ''/donate/'', f_method = ''post'', data_validate = True,
      checkValidity = False, form_data = [(''amount'', [])], submit_button = Some ''submit'',
      data_search_url = None, data_result_container = None\<rparr>"

definition contact_form :: form where
  "contact_form =
     \<lparr>f_action = ''/contact/'', f_method = ''post'', data_validate = True,
      checkValidity = True, form_data = [(''email'', ''a@example.org'')],
      submit_button = Some ''submit'', data_search_url = None, data_result_container = None\<rparr>"



text \<open>
  An environment in which every call meets the same network event, and one in which the
  calls also get different ids. Their \<open>with_query\<close> is right for a relative URL without a
  query and a value of unreserved ASCII characters.
\<close>

definition ascii :: "js_string \<Rightarrow> string" where
  "ascii q = map (\<lambda>w. char_of (unat w)) q"

definition answering :: "network_event \<Rightarrow> environment" where
  "answering ev =
     \<lparr>attempts = (\<lambda>k. \<lparr>requestId = ''req'', network = ev\<rparr>),
      querySelector = (\<lambda>s. if s = ''#results'' then Some ''results'' else None),
      location_href = ''https://example.org/'',
      with_query = (\<lambda>u q. u @ ''?q='' @ ascii q)\<rparr>"

definition numbered :: "network_event \<Rightarrow> environment" where
  "numbered ev =
     \<lparr>attempts = (\<lambda>k. \<lparr>requestId = ''req_'' @ string_of_nat k, network = ev\<rparr>),
      querySelector = (\<lambda>s. if s = ''#results'' then Some ''results'' else None),
      location_href = ''https://example.org/'',
      with_query = (\<lambda>u q. u @ ''?q='' @ ascii q)\<rparr>"

section \<open>Strings and states\<close>


subsection \<open>Strings\<close>

lemma starts_with_single: "starts_with s [c] = (case s of [] \<Rightarrow> False | x # _ \<Rightarrow> x = c)"
  by (cases s) auto

lemma str_includes_single: "str_includes s [c] = (c \<in> set s)"
  by (induction s) (auto simp: starts_with_single)

lemma string_of_nat_4xx:
  assumes "400 \<le> n" "n \<le> 499"
  shows "CHR ''4'' \<in> set (string_of_nat n)"
proof -
  have a: "n div 10 div 10 = 4" using assms by auto
  have "string_of_nat n = string_of_nat (n div 10) @ [digit (n mod 10)]"
    using assms by (subst string_of_nat.simps) simp
  moreover have "\<not> n div 10 < 10" using assms by linarith
  then have "string_of_nat (n div 10) = string_of_nat (n div 10 div 10) @ [digit (n div 10 mod 10)]"
    by (subst string_of_nat.simps) simp
  moreover have "string_of_nat (n div 10 div 10) = ''4''"
    unfolding a by (simp add: string_of_nat.simps digit_def)
  ultimately show ?thesis by simp
qed

lemma client_error_message:
  assumes "400 \<le> n" "n \<le> 499"
  shows "str_includes (''HTTP error! status: '' @ string_of_nat n) ''4''"
  using string_of_nat_4xx [OF assms] by (simp add: str_includes_single)

subsection \<open>The state after each operation\<close>

lemma emit_fields [simp]:
  "effects (emit es st) = effects st @ es"
  "pendingRequests (emit es st) = pendingRequests st"
  "calls (emit es st) = calls st"
  "nextHandle (emit es st) = nextHandle st"
  by (simp_all add: emit_def)

lemma cancel_fold_registry:
  "pendingRequests (fold (cancel_step u) xs st) =
     filter (\<lambda>(k, p). k \<notin> fst ` set (filter (cancelled_by u) xs)) (pendingRequests st)"
proof (induction xs arbitrary: st)
  case Nil
  then show ?case by simp
next
  case (Cons x xs)
  obtain rid p where x: "x = (rid, p)" by (cases x)
  show ?case
    unfolding fold_simps Cons.IH
    by (auto simp: x cancel_step_def cancelled_by_def AList.delete_eq intro!: filter_cong)
qed

lemma cancel_fold_effects:
  "effects (fold (cancel_step u) xs st) =
     effects st @ concat (map (cancel_effects \<circ> snd) (filter (cancelled_by u) xs))"
proof (induction xs arbitrary: st)
  case Nil
  then show ?case by simp
next
  case (Cons x xs)
  obtain rid p where x: "x = (rid, p)" by (cases x)
  show ?case
    unfolding fold_simps Cons.IH
    by (simp add: x cancel_step_def cancelled_by_def comp_def)
qed

lemma cancel_fold_calls: "calls (fold (cancel_step u) xs st) = calls st"
proof (induction xs arbitrary: st)
  case Nil
  then show ?case by simp
next
  case (Cons x xs)
  obtain rid p where x: "x = (rid, p)" by (cases x)
  show ?case
    unfolding fold_simps Cons.IH
    by (simp add: x cancel_step_def)
qed

lemma cancel_fold_nextHandle: "nextHandle (fold (cancel_step u) xs st) = nextHandle st"
proof (induction xs arbitrary: st)
  case Nil
  then show ?case by simp
next
  case (Cons x xs)
  obtain rid p where x: "x = (rid, p)" by (cases x)
  show ?case
    unfolding fold_simps Cons.IH
    by (simp add: x cancel_step_def)
qed

lemma cancelPendingRequest_fields:
  "pendingRequests (cancelPendingRequest u st) =
     filter (\<lambda>(k, p). k \<notin> fst ` set (filter (cancelled_by u) (pendingRequests st)))
       (pendingRequests st)"
  "effects (cancelPendingRequest u st) =
     effects st @ concat (map (cancel_effects \<circ> snd) (filter (cancelled_by u) (pendingRequests st)))"
  "calls (cancelPendingRequest u st) = calls st"
  "nextHandle (cancelPendingRequest u st) = nextHandle st"
  by (simp_all add: cancelPendingRequest_def cancel_fold_registry cancel_fold_effects
      cancel_fold_calls cancel_fold_nextHandle)

lemma cancel_all_fold:
  "effects (fold (\<lambda>(rid, p). emit (cancel_effects p)) xs st) =
     effects st @ concat (map (cancel_effects \<circ> snd) xs)"
  "calls (fold (\<lambda>(rid, p). emit (cancel_effects p)) xs st) = calls st"
  "nextHandle (fold (\<lambda>(rid, p). emit (cancel_effects p)) xs st) = nextHandle st"
  by (induction xs arbitrary: st) auto

lemma cancelAllRequests_fields:
  "pendingRequests (cancelAllRequests st) = []"
  "effects (cancelAllRequests st) =
     effects st @ concat (map (cancel_effects \<circ> snd) (pendingRequests st))"
  "calls (cancelAllRequests st) = calls st"
  "nextHandle (cancelAllRequests st) = nextHandle st"
  by (simp_all add: cancelAllRequests_def cancel_all_fold)

lemma cancel_effects_no_fetch: "filter is_fetch (concat (map (cancel_effects \<circ> snd) xs)) = []"
  by (induction xs) (auto simp: cancel_effects_def is_fetch_def split: option.splits)

lemma cancel_effects_no_delay: "filter is_delay (concat (map (cancel_effects \<circ> snd) xs)) = []"
  by (induction xs) (auto simp: cancel_effects_def is_delay_def split: option.splits)

lemmas cancel_fields = cancelPendingRequest_fields cancelAllRequests_fields
  cancel_effects_no_fetch cancel_effects_no_delay

subsection \<open>One attempt\<close>

lemma begin_calls: "calls (snd (makeRequest_begin env u config st)) = Suc (calls st)"
  by (simp add: makeRequest_begin_def Let_def cancel_fields split: option.splits)

lemma begin_fetches:
  "filter is_fetch (effects (snd (makeRequest_begin env u config st))) =
     filter is_fetch (effects st) @ [Fetch u (requestOptions config)]"
  by (simp add: makeRequest_begin_def Let_def cancel_fields is_fetch_def show_loading_def
      split: option.splits)

lemma begin_delays:
  "filter is_delay (effects (snd (makeRequest_begin env u config st))) =
     filter is_delay (effects st)"
  by (simp add: makeRequest_begin_def Let_def cancel_fields is_delay_def show_loading_def
      split: option.splits)

lemma during_await_counts:
  "calls (during_await u c ev st) = calls st"
  "filter is_fetch (effects (during_await u c ev st)) = filter is_fetch (effects st)"
  "filter is_delay (effects (during_await u c ev st)) = filter is_delay (effects st)"
  by (cases ev; simp add: during_await_def cancel_fields is_fetch_def is_delay_def)+

lemma after_response_counts:
  "calls (snd (after_response config rid loc r st)) = calls st"
  "filter is_fetch (effects (snd (after_response config rid loc r st))) = filter is_fetch (effects st)"
  "filter is_delay (effects (snd (after_response config rid loc r st))) = filter is_delay (effects st)"
  by (simp_all add: after_response_def Let_def is_fetch_def is_delay_def
      split: option.splits sum.splits callback.splits)

lemma try_block_counts:
  "calls (snd (try_block env u config st)) = Suc (calls st)"
  "filter is_fetch (effects (snd (try_block env u config st))) =
     filter is_fetch (effects st) @ [Fetch u (requestOptions config)]"
  "filter is_delay (effects (snd (try_block env u config st))) = filter is_delay (effects st)"
  using begin_calls [of env u config st] begin_fetches [of env u config st]
    begin_delays [of env u config st]
  by (auto simp: try_block_def Let_def during_await_counts after_response_counts
      split: prod.splits sum.splits)

lemma catch_cleanup_counts:
  "calls (catch_cleanup rid st) = calls st"
  "filter is_fetch (effects (catch_cleanup rid st)) = filter is_fetch (effects st)"
  "filter is_delay (effects (catch_cleanup rid st)) = filter is_delay (effects st)"
  by (simp_all add: catch_cleanup_def is_fetch_def is_delay_def split: option.splits)

lemma report_failure_counts:
  "calls (snd (report_failure config e st)) = calls st"
  "filter is_fetch (effects (snd (report_failure config e st))) = filter is_fetch (effects st)"
  "filter is_delay (effects (snd (report_failure config e st))) = filter is_delay (effects st)"
  by (simp_all add: report_failure_def Let_def is_fetch_def is_delay_def
      split: option.splits callback.splits)


lemma spread_default_retry:
  "spread defaultConfig ((spread defaultConfig opts)\<lparr>retries := Some m\<rparr>) =
     (spread defaultConfig opts)\<lparr>retries := Some m\<rparr>"
  by (simp add: spread_def override_def defaultConfig_def no_options_def split: option.splits)

lemma retry_wanted_Some:
  "retry_wanted config e \<Longrightarrow> \<exists>n. retries config = Some n \<and> 0 < n"
  by (auto simp: retry_wanted_def split: option.splits)

text \<open>The three ways out of the catch block.\<close>

lemma makeRequest_returns:
  assumes "try_block env u (spread defaultConfig opts) st = (Inr res, st1)"
  shows "makeRequest env u opts st = (Inr res, st1)"
  using assms by (subst makeRequest.simps) (simp add: Let_def)

lemma makeRequest_aborted:
  assumes "try_block env u (spread defaultConfig opts) st = (Inl e, st1)"
    and "name e = ''AbortError''"
  shows "makeRequest env u opts st =
           (Inr (Failure ''Request cancelled''),
            catch_cleanup (requestId (attempts env (calls st))) st1)"
  using assms by (subst makeRequest.simps) (simp add: Let_def)

lemma makeRequest_retries:
  assumes "try_block env u (spread defaultConfig opts) st = (Inl e, st1)"
    and "name e \<noteq> ''AbortError''"
    and "retry_wanted (spread defaultConfig opts) e"
    and "retries (spread defaultConfig opts) = Some n"
  shows "makeRequest env u opts st =
           makeRequest env u ((spread defaultConfig opts)\<lparr>retries := Some (n - 1)\<rparr>)
             (emit [Delay (retryDelay (spread defaultConfig opts))]
                (catch_cleanup (requestId (attempts env (calls st))) st1))"
  using assms by (subst makeRequest.simps) (simp add: Let_def)

lemma makeRequest_fails:
  assumes "try_block env u (spread defaultConfig opts) st = (Inl e, st1)"
    and "name e \<noteq> ''AbortError''"
    and "\<not> retry_wanted (spread defaultConfig opts) e"
  shows "makeRequest env u opts st =
           report_failure (spread defaultConfig opts) e
             (catch_cleanup (requestId (attempts env (calls st))) st1)"
  using assms by (subst makeRequest.simps) (simp add: Let_def)

lemma try_block_snd_counts:
  assumes "try_block env u config st = (r, st1)"
  shows "calls st1 = Suc (calls st)"
    and "filter is_fetch (effects st1) = filter is_fetch (effects st) @ [Fetch u (requestOptions config)]"
    and "filter is_delay (effects st1) = filter is_delay (effects st)"
  using try_block_counts [of env u config st] assms by simp_all


subsection \<open>Evaluating the examples\<close>

lemmas eval_defs = try_block_def makeRequest_begin_def during_await_def after_response_def
  parse_body_def catch_cleanup_def retry_wanted_def report_failure_def request_def ok_def
  spread_def override_def defaultConfig_def no_options_def initial_def emit_def
  cancelPendingRequest_def cancel_step_def cancel_effects_def cancelAllRequests_def
  resolve_loading_def show_loading_def requestOptions_def abort_error_def
  answering_def example_response_def json_response_def string_of_nat.simps digit_def
  fetches_def delays_def is_fetch_def is_delay_def Let_def


section \<open>What an attempt throws\<close>

lemma try_block_not_ok:
  assumes "network (attempts env (calls st)) = Responds r" and "\<not> ok r"
  shows "fst (try_block env u config st) =
           Inl (JsError ''Error'' (''HTTP error! status: '' @ string_of_nat (status r)))"
  using assms by (simp add: try_block_def Let_def request_def split: prod.splits)

lemma try_block_abort:
  assumes "network (attempts env (calls st)) \<in> {TimesOut, CancelledByUrl, CancelledAll}"
  shows "fst (try_block env u config st) = Inl abort_error"
  using assms by (auto simp: try_block_def Let_def request_def split: prod.splits)

section \<open>A client error is never retried\<close>

text \<open>
  Claim C2. When the response of an attempt has a status from 400 to 499, \<open>makeRequest\<close>
  does not dispatch again, whatever the options and the retry budget left: the call issues
  exactly one network call, waits for no retry delay and is the only call of
  \<open>makeRequest\<close>. It returns the failure whose message carries the status, provided the
  \<open>errorCallback\<close> it runs does not throw.
\<close>

theorem client_error_never_retried:
  assumes "network (attempts env (calls st)) = Responds r"
    and "400 \<le> status r" and "status r \<le> 499"
  shows "fetches (snd (makeRequest env u opts st)) = Suc (fetches st) \<and>
         delays (snd (makeRequest env u opts st)) = delays st \<and>
         calls (snd (makeRequest env u opts st)) = Suc (calls st) \<and>
         ((\<forall>x. errorCallback opts \<noteq> Some (Throws x)) \<longrightarrow>
            fst (makeRequest env u opts st) =
              Inr (Failure (''HTTP error! status: '' @ string_of_nat (status r))))"
proof -
  let ?config = "spread defaultConfig opts"
  let ?e = "JsError ''Error'' (''HTTP error! status: '' @ string_of_nat (status r))"
  obtain x st1 where tb: "try_block env u ?config st = (x, st1)"
    by (cases "try_block env u ?config st")
  have "\<not> ok r" using assms(2) by (simp add: ok_def)
  from try_block_not_ok [OF assms(1) this, of u ?config] tb
  have tb': "try_block env u ?config st = (Inl ?e, st1)" by simp
  have "\<not> retry_wanted ?config ?e"
    using client_error_message [OF assms(2,3)] by (simp add: retry_wanted_def)
  then have mr: "makeRequest env u opts st =
      report_failure ?config ?e (catch_cleanup (requestId (attempts env (calls st))) st1)"
    using makeRequest_fails [OF tb'] by simp
  have cb: "errorCallback ?config = errorCallback opts"
    by (simp add: spread_def override_def defaultConfig_def no_options_def split: option.splits)
  have res: "(\<forall>x. errorCallback opts \<noteq> Some (Throws x)) \<longrightarrow>
      fst (report_failure ?config ?e (catch_cleanup (requestId (attempts env (calls st))) st1)) =
        Inr (Failure (''HTTP error! status: '' @ string_of_nat (status r)))"
    by (auto simp: report_failure_def Let_def cb split: option.splits callback.splits)
  show ?thesis
    unfolding mr fetches_def delays_def
    using res
    by (simp add: report_failure_counts catch_cleanup_counts try_block_snd_counts [OF tb'])
qed

theorem client_error_never_retried_witness:
  "network (attempts (answering (Responds (example_response 404))) (calls initial)) =
     Responds (example_response 404) \<and>
   400 \<le> status (example_response 404) \<and> status (example_response 404) \<le> 499 \<and>
   fetches (snd (makeRequest (answering (Responds (example_response 404))) ''/api''
                   (no_options\<lparr>retries := Some 5\<rparr>) initial)) = Suc (fetches initial) \<and>
   delays (snd (makeRequest (answering (Responds (example_response 404))) ''/api''
                  (no_options\<lparr>retries := Some 5\<rparr>) initial)) = delays initial \<and>
   fst (makeRequest (answering (Responds (example_response 404))) ''/api''
          (no_options\<lparr>retries := Some 5\<rparr>) initial) =
     Inr (Failure ''HTTP error! status: 404'')"
  using client_error_never_retried
    [where env = "answering (Responds (example_response 404))" and st = initial
       and r = "example_response 404" and u = "''/api''"
       and opts = "no_options\<lparr>retries := Some 5\<rparr>"]
  by (simp add: answering_def example_response_def no_options_def string_of_nat.simps digit_def)

section \<open>A cancelled request is not retried\<close>

text \<open>
  Claim C3, amended. When an attempt fails because it was cancelled (its timeout timer
  fired, or \<open>cancelPendingRequest\<close> or \<open>cancelAllRequests\<close> aborted it), \<open>makeRequest\<close>
  resolves with the object \<open>{success: false, error: "Request cancelled"}\<close>, whose only keys
  are \<open>success\<close> and \<open>error\<close>, and does not retry, whatever the retry budget: one network
  call, no retry delay, one call of \<open>makeRequest\<close>.
\<close>

theorem cancellation_not_retried:
  assumes "network (attempts env (calls st)) \<in> {TimesOut, CancelledByUrl, CancelledAll}"
  shows "fst (makeRequest env u opts st) = Inr (Failure ''Request cancelled'') \<and>
         map_sum id result_keys (fst (makeRequest env u opts st)) = Inr [''success'', ''error''] \<and>
         fetches (snd (makeRequest env u opts st)) = Suc (fetches st) \<and>
         delays (snd (makeRequest env u opts st)) = delays st \<and>
         calls (snd (makeRequest env u opts st)) = Suc (calls st)"
proof -
  let ?config = "spread defaultConfig opts"
  obtain x st1 where tb: "try_block env u ?config st = (x, st1)"
    by (cases "try_block env u ?config st")
  from try_block_abort [OF assms, of u ?config] tb
  have tb': "try_block env u ?config st = (Inl abort_error, st1)" by simp
  have mr: "makeRequest env u opts st =
      (Inr (Failure ''Request cancelled''),
       catch_cleanup (requestId (attempts env (calls st))) st1)"
    using makeRequest_aborted [OF tb'] by (simp add: abort_error_def)
  show ?thesis
    unfolding mr fetches_def delays_def
    by (simp add: catch_cleanup_counts try_block_snd_counts [OF tb'] result_keys_def)
qed

theorem cancellation_not_retried_witness:
  "network (attempts (answering TimesOut) (calls initial)) \<in> {TimesOut, CancelledByUrl, CancelledAll} \<and>
   fst (makeRequest (answering TimesOut) ''/api'' (no_options\<lparr>retries := Some 5\<rparr>) initial) =
     Inr (Failure ''Request cancelled'') \<and>
   map_sum id result_keys
     (fst (makeRequest (answering TimesOut) ''/api'' (no_options\<lparr>retries := Some 5\<rparr>) initial)) =
     Inr [''success'', ''error''] \<and>
   fetches (snd (makeRequest (answering TimesOut) ''/api''
                   (no_options\<lparr>retries := Some 5\<rparr>) initial)) = Suc (fetches initial) \<and>
   delays (snd (makeRequest (answering TimesOut) ''/api''
                  (no_options\<lparr>retries := Some 5\<rparr>) initial)) = delays initial"
proof -
  have cancelled: "network (attempts (answering TimesOut) (calls initial)) \<in>
      {TimesOut, CancelledByUrl, CancelledAll}"
    by (simp add: answering_def)
  show ?thesis
    using cancelled
      cancellation_not_retried
        [OF cancelled, where u = "''/api''" and opts = "no_options\<lparr>retries := Some 5\<rparr>"]
    by blast
qed

text \<open>
  Claim C3 as stated says that the failure carries \<open>cancelled = true\<close>. The result of a call
  whose timeout timer fired has no key \<open>cancelled\<close>; it is the very object that a transport
  failure with the message \<open>Request cancelled\<close> and no retry budget gives.
\<close>

theorem cancelled_result_has_no_flag:
  "fst (makeRequest (answering TimesOut) ''/api'' no_options initial) =
     Inr (Failure ''Request cancelled'') \<and>
   ''cancelled'' \<notin> set (result_keys (Failure ''Request cancelled'')) \<and>
   fst (makeRequest (answering (Fails (JsError ''TypeError'' ''Request cancelled''))) ''/api''
          (no_options\<lparr>retries := Some 0\<rparr>) initial) =
     Inr (Failure ''Request cancelled'')"
  by (simp add: result_keys_def makeRequest.simps eval_defs)

section \<open>Whole calls\<close>


text \<open>Attempts of a whole call: each one issues one network call; a delay separates two.\<close>

lemma makeRequest_counts:
  "calls st < calls (snd (makeRequest env u opts st)) \<and>
   fetches (snd (makeRequest env u opts st)) + calls st =
     fetches st + calls (snd (makeRequest env u opts st)) \<and>
   Suc (delays (snd (makeRequest env u opts st)) + calls st) =
     delays st + calls (snd (makeRequest env u opts st))"
proof (induction env u opts st rule: makeRequest.induct)
  case (1 env u opts st)
  let ?config = "spread defaultConfig opts"
  let ?rid = "requestId (attempts env (calls st))"
  obtain x st1 where tb: "try_block env u ?config st = (x, st1)"
    by (cases "try_block env u ?config st")
  note cnt = try_block_snd_counts [OF tb]
  show ?case
  proof (cases x)
    case (Inr res)
    then show ?thesis
      using makeRequest_returns [of env u opts st res st1] tb cnt
      by (simp add: fetches_def delays_def)
  next
    case (Inl e)
    note tb' = tb [unfolded Inl]
    show ?thesis
    proof (cases "name e = ''AbortError''")
      case True
      then show ?thesis
        using makeRequest_aborted [OF tb' True] cnt
        by (simp add: fetches_def delays_def catch_cleanup_counts)
    next
      case False
      show ?thesis
      proof (cases "retry_wanted ?config e")
        case True
        then obtain n where n: "retries ?config = Some n" "0 < n"
          using retry_wanted_Some by blast
        let ?st2 = "emit [Delay (retryDelay ?config)] (catch_cleanup ?rid st1)"
        let ?opts' = "?config\<lparr>retries := Some (n - 1)\<rparr>"
        have mr: "makeRequest env u opts st = makeRequest env u ?opts' ?st2"
          using makeRequest_retries [OF tb' False True n(1)] .
        have IH: "calls ?st2 < calls (snd (makeRequest env u ?opts' ?st2)) \<and>
          fetches (snd (makeRequest env u ?opts' ?st2)) + calls ?st2 =
            fetches ?st2 + calls (snd (makeRequest env u ?opts' ?st2)) \<and>
          Suc (delays (snd (makeRequest env u ?opts' ?st2)) + calls ?st2) =
            delays ?st2 + calls (snd (makeRequest env u ?opts' ?st2))"
          using "1.IH" [OF refl refl tb' [symmetric] refl refl False True] n(1) by simp
        have st2: "calls ?st2 = Suc (calls st)" "fetches ?st2 = Suc (fetches st)"
          "delays ?st2 = Suc (delays st)"
          using cnt by (simp_all add: fetches_def delays_def catch_cleanup_counts is_fetch_def is_delay_def)
        show ?thesis
          unfolding mr using IH st2 by simp
      next
        case nr: False
        then show ?thesis
          using makeRequest_fails [OF tb' False nr] cnt
          by (simp add: fetches_def delays_def catch_cleanup_counts report_failure_counts)
      qed
    qed
  qed
qed

lemma retry_budget_retry:
  assumes "retries (spread defaultConfig opts) = Some n" and "0 < n"
  shows "retry_budget opts = Suc (retry_budget ((spread defaultConfig opts)\<lparr>retries := Some (n - 1)\<rparr>))"
  using assms by (simp add: retry_budget_def spread_default_retry nat_diff_distrib flip: Suc_nat_eq_nat_zadd1)

lemma makeRequest_attempts_bound:
  "calls (snd (makeRequest env u opts st)) \<le> calls st + Suc (retry_budget opts)"
proof (induction env u opts st rule: makeRequest.induct)
  case (1 env u opts st)
  let ?config = "spread defaultConfig opts"
  let ?rid = "requestId (attempts env (calls st))"
  obtain x st1 where tb: "try_block env u ?config st = (x, st1)"
    by (cases "try_block env u ?config st")
  note cnt = try_block_snd_counts [OF tb]
  show ?case
  proof (cases x)
    case (Inr res)
    then show ?thesis
      using makeRequest_returns [of env u opts st res st1] tb cnt by simp
  next
    case (Inl e)
    note tb' = tb [unfolded Inl]
    show ?thesis
    proof (cases "name e = ''AbortError''")
      case True
      then show ?thesis
        using makeRequest_aborted [OF tb' True] cnt by (simp add: catch_cleanup_counts)
    next
      case False
      show ?thesis
      proof (cases "retry_wanted ?config e")
        case True
        then obtain n where n: "retries ?config = Some n" "0 < n"
          using retry_wanted_Some by blast
        let ?st2 = "emit [Delay (retryDelay ?config)] (catch_cleanup ?rid st1)"
        let ?opts' = "?config\<lparr>retries := Some (n - 1)\<rparr>"
        have mr: "makeRequest env u opts st = makeRequest env u ?opts' ?st2"
          using makeRequest_retries [OF tb' False True n(1)] .
        have IH: "calls (snd (makeRequest env u ?opts' ?st2)) \<le> calls ?st2 + Suc (retry_budget ?opts')"
          using "1.IH" [OF refl refl tb' [symmetric] refl refl False True] n(1) by simp
        have st2: "calls ?st2 = Suc (calls st)"
          using cnt by (simp add: catch_cleanup_counts)
        show ?thesis
          unfolding mr using IH st2 retry_budget_retry [OF n] by simp
      next
        case nr: False
        then show ?thesis
          using makeRequest_fails [OF tb' False nr] cnt
          by (simp add: catch_cleanup_counts report_failure_counts)
      qed
    qed
  qed
qed

lemma spread_default_callbacks:
  "errorCallback (spread defaultConfig opts) = errorCallback opts"
  "successCallback (spread defaultConfig opts) = successCallback opts"
  by (simp_all add: spread_def override_def defaultConfig_def no_options_def split: option.splits)

lemma try_block_success_ok:
  assumes "try_block env u config st = (Inr res, st1)"
  shows "\<exists>d r. res = Success d r \<and> ok r"
  using assms
  by (auto simp: try_block_def Let_def after_response_def
      split: prod.splits sum.splits if_splits option.splits callback.splits)

lemma makeRequest_settles:
  assumes "\<forall>x. errorCallback opts \<noteq> Some (Throws x)"
  shows "\<exists>res. fst (makeRequest env u opts st) = Inr res \<and>
           ((\<exists>d r. res = Success d r \<and> ok r) \<or> (\<exists>msg. res = Failure msg))"
  using assms
proof (induction env u opts st rule: makeRequest.induct)
  case (1 env u opts st)
  let ?config = "spread defaultConfig opts"
  let ?rid = "requestId (attempts env (calls st))"
  obtain x st1 where tb: "try_block env u ?config st = (x, st1)"
    by (cases "try_block env u ?config st")
  show ?case
  proof (cases x)
    case (Inr res)
    then show ?thesis
      using makeRequest_returns [of env u opts st res st1] tb
        try_block_success_ok [of env u ?config st res st1] by auto
  next
    case (Inl e)
    note tb' = tb [unfolded Inl]
    show ?thesis
    proof (cases "name e = ''AbortError''")
      case True
      then show ?thesis
        using makeRequest_aborted [OF tb' True] by simp
    next
      case False
      show ?thesis
      proof (cases "retry_wanted ?config e")
        case True
        then obtain n where n: "retries ?config = Some n" "0 < n"
          using retry_wanted_Some by blast
        let ?st2 = "emit [Delay (retryDelay ?config)] (catch_cleanup ?rid st1)"
        let ?opts' = "?config\<lparr>retries := Some (n - 1)\<rparr>"
        have mr: "makeRequest env u opts st = makeRequest env u ?opts' ?st2"
          using makeRequest_retries [OF tb' False True n(1)] .
        have cb: "\<forall>x. errorCallback ?opts' \<noteq> Some (Throws x)"
          using "1.prems" by (simp add: spread_default_callbacks)
        show ?thesis
          unfolding mr
          using "1.IH" [OF refl refl tb' [symmetric] refl refl False True] n(1) cb by simp
      next
        case nr: False
        have "fst (report_failure ?config e (catch_cleanup ?rid st1)) = Inr (Failure (message e))"
          using "1.prems"
          by (auto simp: report_failure_def Let_def spread_default_callbacks
              split: option.splits callback.splits)
        then show ?thesis
          using makeRequest_fails [OF tb' False nr] by simp
      qed
    qed
  qed
qed

section \<open>Attempts against a server that keeps failing\<close>

lemma server_error_retried:
  assumes "\<forall>k. \<exists>r. network (attempts env k) = Responds r \<and> \<not> ok r \<and>
             CHR ''4'' \<notin> set (string_of_nat (status r))"
  shows "calls (snd (makeRequest env u opts st)) = calls st + Suc (retry_budget opts)"
  using assms
proof (induction env u opts st rule: makeRequest.induct)
  case (1 env u opts st)
  let ?config = "spread defaultConfig opts"
  let ?rid = "requestId (attempts env (calls st))"
  obtain r where r: "network (attempts env (calls st)) = Responds r" "\<not> ok r"
    "CHR ''4'' \<notin> set (string_of_nat (status r))"
    using "1.prems" by blast
  let ?e = "JsError ''Error'' (''HTTP error! status: '' @ string_of_nat (status r))"
  obtain x st1 where tb: "try_block env u ?config st = (x, st1)"
    by (cases "try_block env u ?config st")
  from try_block_not_ok [OF r(1,2), of u ?config] tb
  have tb': "try_block env u ?config st = (Inl ?e, st1)" by simp
  note cnt = try_block_snd_counts [OF tb']
  have ne: "name ?e \<noteq> ''AbortError''" by simp
  have no4: "\<not> str_includes (message ?e) ''4''"
    using r(3) by (simp add: str_includes_single)
  show ?case
  proof (cases "retry_wanted ?config ?e")
    case True
    then obtain n where n: "retries ?config = Some n" "0 < n"
      using retry_wanted_Some by blast
    let ?st2 = "emit [Delay (retryDelay ?config)] (catch_cleanup ?rid st1)"
    let ?opts' = "?config\<lparr>retries := Some (n - 1)\<rparr>"
    have mr: "makeRequest env u opts st = makeRequest env u ?opts' ?st2"
      using makeRequest_retries [OF tb' ne True n(1)] .
    have IH: "calls (snd (makeRequest env u ?opts' ?st2)) = calls ?st2 + Suc (retry_budget ?opts')"
      using "1.IH" [OF refl refl tb' [symmetric] refl refl ne True] n(1) "1.prems" by simp
    have st2: "calls ?st2 = Suc (calls st)"
      using cnt by (simp add: catch_cleanup_counts)
    show ?thesis
      unfolding mr using IH st2 retry_budget_retry [OF n] by simp
  next
    case False
    then have "retry_budget opts = 0"
      using no4 by (auto simp: retry_wanted_def retry_budget_def split: option.splits)
    then show ?thesis
      using makeRequest_fails [OF tb' ne False] cnt
      by (simp add: catch_cleanup_counts report_failure_counts)
  qed
qed

text \<open>
  Claim C1. With \<open>retries = n\<close>, a server that keeps answering with a status from 500 to
  599 should be called \<open>n + 1\<close> times. \<open>server_error_retried\<close> above shows that for the
  statuses whose digits have no \<open>4\<close>. The retry test of line 198 looks for the character
  \<open>4\<close> in the message, so a status such as 504 is taken for a client error: with
  \<open>retries = 3\<close> the call below makes one network call, not four.
\<close>

theorem gateway_timeout_single_attempt:
  "fst (makeRequest (answering (Responds (example_response 504))) ''/api''
          (no_options\<lparr>retries := Some 3\<rparr>) initial) =
     Inr (Failure ''HTTP error! status: 504'') \<and>
   fetches (snd (makeRequest (answering (Responds (example_response 504))) ''/api''
                   (no_options\<lparr>retries := Some 3\<rparr>) initial)) = 1"
  by (simp add: makeRequest.simps eval_defs)

lemma internal_error_four_attempts:
  "fst (makeRequest (answering (Responds (example_response 500))) ''/api'' no_options initial) =
     Inr (Failure ''HTTP error! status: 500'') \<and>
   fetches (snd (makeRequest (answering (Responds (example_response 500))) ''/api''
                   no_options initial)) = 4"
  by (simp add: makeRequest.simps eval_defs)


section \<open>\<open>makeRequest\<close> settles with a result object\<close>

text \<open>
  Claim C9. \<open>makeRequest\<close> never rejects: whatever the environment does to each attempt
  (a response of any status, a body that cannot be read, a transport failure, an abort),
  the call terminates and resolves with a result object, which is a success for an \<open>ok\<close>
  response or a failure with its error string, as long as the callbacks the caller
  supplied do not throw.
\<close>

theorem makeRequest_never_rejects:
  assumes "\<forall>x. successCallback opts \<noteq> Some (Throws x)"
    and "\<forall>x. errorCallback opts \<noteq> Some (Throws x)"
  shows "\<exists>res. fst (makeRequest env u opts st) = Inr res \<and>
           ((\<exists>d r. res = Success d r \<and> ok r) \<or> (\<exists>msg. res = Failure msg))"
  using makeRequest_settles [OF assms(2)] by blast

theorem makeRequest_never_rejects_witness:
  "(\<forall>x. successCallback (no_options\<lparr>errorCallback := Some Returns\<rparr>) \<noteq> Some (Throws x)) \<and>
   (\<forall>x. errorCallback (no_options\<lparr>errorCallback := Some Returns\<rparr>) \<noteq> Some (Throws x)) \<and>
   (\<exists>res. fst (makeRequest (answering (Fails (JsError ''TypeError'' ''Failed to fetch''))) ''/api''
                  (no_options\<lparr>errorCallback := Some Returns\<rparr>) initial) = Inr res \<and>
          ((\<exists>d r. res = Success d r \<and> ok r) \<or> (\<exists>msg. res = Failure msg)))"
  using makeRequest_never_rejects
    [where opts = "no_options\<lparr>errorCallback := Some Returns\<rparr>"
       and env = "answering (Fails (JsError ''TypeError'' ''Failed to fetch''))"
       and u = "''/api''" and st = initial]
  by (simp add: no_options_def)

section \<open>One pending request per URL\<close>








lemma begin_registry:
  "pr_url (fst (makeRequest_begin env u config st)) = u"
  "pendingRequests (snd (makeRequest_begin env u config st)) =
     AList.update (requestId (attempts env (calls st))) (fst (makeRequest_begin env u config st))
       (pendingRequests (if cancelPending config = Some False then st else cancelPendingRequest u st))"
  by (simp_all add: makeRequest_begin_def Let_def split: option.splits)










lemma begin_effects_exact:
  "effects (snd (makeRequest_begin env u config st)) =
     effects (if cancelPending config = Some False then st else cancelPendingRequest u st) @
     (case resolve_loading env config of Some el \<Rightarrow> [show_loading config el] | None \<Rightarrow> []) @
     [SetTimeout (pr_timeoutId (fst (makeRequest_begin env u config st))) (timeout config),
      Fetch u (requestOptions config)]"
  by (simp add: makeRequest_begin_def Let_def split: option.splits)

lemma begin_handles:
  "pr_controller (fst (makeRequest_begin env u config st)) = nextHandle st"
  "pr_timeoutId (fst (makeRequest_begin env u config st)) = Suc (nextHandle st)"
  "nextHandle (snd (makeRequest_begin env u config st)) = nextHandle st + 2"
  "pr_loadingElement (fst (makeRequest_begin env u config st)) = resolve_loading env config"
  by (simp_all add: makeRequest_begin_def Let_def cancelPendingRequest_fields split: option.splits)




lemmas begin_eval = run_def makeRequest_begin_def Let_def cancelPendingRequest_def cancel_step_def
  cancel_effects_def resolve_loading_def show_loading_def initial_def emit_def numbered_def
  spread_def override_def defaultConfig_def no_options_def string_of_nat.simps digit_def




text \<open>With \<open>cancelPending: false\<close> on the second call, both entries stay.\<close>

lemma without_cancelling_two_entries:
  "entries_for ''/a''
     (run (numbered TimesOut)
        [Begin ''/a'' no_options, Begin ''/a'' (no_options\<lparr>cancelPending := Some False\<rparr>)]
        initial) =
     [(''req_0'', \<lparr>pr_controller = 0, pr_url = ''/a'', pr_timeoutId = 1,
                   pr_loadingElement = None\<rparr>),
      (''req_1'', \<lparr>pr_controller = 2, pr_url = ''/a'', pr_timeoutId = 3,
                   pr_loadingElement = None\<rparr>)]"
  by (simp add: entries_for_def begin_eval)

section \<open>Form submission\<close>

subsection \<open>Effects of a request are not effects on the page\<close>

lemma only_requests_refl: "only_requests st st"
  by (simp add: only_requests_def)

lemma only_requests_trans:
  "only_requests st st1 \<Longrightarrow> only_requests st1 st2 \<Longrightarrow> only_requests st st2"
  by (auto simp: only_requests_def)

lemma only_requests_emit:
  "list_all request_effect es \<Longrightarrow> only_requests st (emit es st)"
  by (simp add: only_requests_def)

lemma only_requests_registry:
  "only_requests st st1 \<Longrightarrow> only_requests st (st1\<lparr>pendingRequests := xs\<rparr>)"
  by (simp add: only_requests_def)

lemma cancel_effects_requests: "list_all request_effect (concat (map (cancel_effects \<circ> snd) xs))"
  by (induction xs) (auto simp: cancel_effects_def request_effect_def split: option.splits)

lemma only_requests_cancel:
  "only_requests st (cancelPendingRequest u st)"
  "only_requests st (cancelAllRequests st)"
  by (simp_all add: only_requests_def cancel_fields cancel_effects_requests)

lemma only_requests_begin: "only_requests st (snd (makeRequest_begin env u config st))"
proof -
  let ?st1 = "if cancelPending config \<noteq> Some False then cancelPendingRequest u st else st"
  have a: "only_requests st ?st1"
    by (simp add: only_requests_cancel only_requests_refl)
  have b: "only_requests ?st1 (snd (makeRequest_begin env u config st))"
    by (simp add: makeRequest_begin_def Let_def only_requests_def request_effect_def
        show_loading_def split: option.splits)
  show ?thesis using a b by (rule only_requests_trans)
qed

lemma only_requests_await: "only_requests st (during_await u c ev st)"
  by (cases ev) (simp_all add: during_await_def only_requests_cancel only_requests_refl
      only_requests_emit request_effect_def)

lemma only_requests_after_response:
  "only_requests st (snd (after_response config rid loc r st))"
  by (simp add: after_response_def Let_def only_requests_def request_effect_def
      split: option.splits sum.splits callback.splits)

lemma only_requests_try_block: "only_requests st (snd (try_block env u config st))"
proof -
  obtain loc st1 where b: "makeRequest_begin env u config st = (loc, st1)"
    by (cases "makeRequest_begin env u config st")
  let ?ev = "network (attempts env (calls st))"
  let ?st2 = "during_await u (pr_controller loc) ?ev st1"
  have 1: "only_requests st st1" using only_requests_begin [of st env u config] b by simp
  have 2: "only_requests st ?st2"
    using 1 only_requests_await by (rule only_requests_trans)
  show ?thesis
  proof (cases "request (fetch ?ev)")
    case (Inl e)
    then show ?thesis using 2 b by (simp add: try_block_def Let_def)
  next
    case (Inr r)
    have "only_requests st (snd (after_response config (requestId (attempts env (calls st))) loc r ?st2))"
      using 2 only_requests_after_response by (rule only_requests_trans)
    then show ?thesis using Inr b by (simp add: try_block_def Let_def)
  qed
qed

lemma only_requests_page:
  assumes "only_requests st st'"
  shows "navigations st' = navigations st" and "resets st' = resets st"
proof -
  obtain es where es: "effects st' = effects st @ es" "list_all request_effect es"
    using assms by (auto simp: only_requests_def)
  have "concat (map (\<lambda>e. case e of Navigate v \<Rightarrow> [v] | _ \<Rightarrow> []) es) = []"
    using es(2) by (induction es) (auto simp: request_effect_def split: effect.splits)
  moreover have "filter (\<lambda>e. e = FormReset) es = []"
    using es(2) by (induction es) (auto simp: request_effect_def)
  ultimately show "navigations st' = navigations st" and "resets st' = resets st"
    using es(1) by (simp_all add: navigations_def resets_def)
qed

subsection \<open>A successful submission\<close>

lemma try_block_success:
  assumes "network (attempts env (calls st)) = Responds r" and "ok r"
    and "parse_body r = Inr d" and "\<forall>x. successCallback config \<noteq> Some (Throws x)"
  shows "fst (try_block env u config st) = Inr (Success d r)"
  using assms
  by (auto simp: try_block_def Let_def request_def after_response_def
      split: prod.splits option.splits callback.splits)

lemma makeRequest_success:
  assumes "network (attempts env (calls st)) = Responds r" and "ok r"
    and "parse_body r = Inr d" and "\<forall>x. successCallback opts \<noteq> Some (Throws x)"
  shows "fst (makeRequest env u opts st) = Inr (Success d r) \<and>
         only_requests st (snd (makeRequest env u opts st)) \<and>
         calls (snd (makeRequest env u opts st)) = Suc (calls st) \<and>
         filter is_fetch (effects (snd (makeRequest env u opts st))) =
           filter is_fetch (effects st) @ [Fetch u (requestOptions (spread defaultConfig opts))]"
proof -
  let ?config = "spread defaultConfig opts"
  obtain x st1 where tb: "try_block env u ?config st = (x, st1)"
    by (cases "try_block env u ?config st")
  have "\<forall>x. successCallback ?config \<noteq> Some (Throws x)"
    using assms(4) by (simp add: spread_default_callbacks)
  from try_block_success [OF assms(1-3) this, of u] tb
  have tb': "try_block env u ?config st = (Inr (Success d r), st1)" by simp
  show ?thesis
    using makeRequest_returns [OF tb'] only_requests_try_block [of st env u ?config]
      try_block_snd_counts [OF tb'] tb'
    by simp
qed

lemma spread_successCallback:
  "successCallback (spread (no_options\<lparr>http_method := m, data := d, loadingElement := le,
      loadingText := t\<rparr>) opts) = successCallback opts"
  by (simp add: spread_def override_def no_options_def split: option.splits)

subsection \<open>A redirect after a form submission\<close>

text \<open>
  Claim C6, amended. When a form passes validation and the response to its submission is
  \<open>ok\<close> with a JSON payload whose \<open>redirect\<close> is \<open>"/thanks/"\<close>, \<open>submitForm\<close> assigns exactly
  \<open>/thanks/\<close> to \<open>window.location.href\<close>, once, and it resets the form unless the option
  \<open>resetForm\<close> is \<open>false\<close>: the redirect does not suppress the reset of line 259.
\<close>

theorem redirect_navigates_and_resets:
  assumes "data_validate f \<longrightarrow> checkValidity f"
    and "network (attempts env (calls st)) = Responds r" and "ok r"
    and "parse_body r = Inr (JObj kvs)"
    and "map_of kvs ''redirect'' = Some (JStr ''/thanks/'')"
    and "\<forall>x. successCallback opts \<noteq> Some (Throws x)"
  shows "fst (submitForm env f opts st) = Inr (Success (JObj kvs) r) \<and>
         navigations (snd (submitForm env f opts st)) = navigations st @ [JStr ''/thanks/''] \<and>
         resets (snd (submitForm env f opts st)) =
           resets st + (if resetForm opts = Some False then 0 else 1)"
proof -
  let ?config = "spread (no_options\<lparr>
      http_method := Some (if f_method f \<noteq> [] then f_method f else ''POST''),
      data := Some (FormData (form_data f)),
      loadingElement := map_option Element (submit_button f),
      loadingText := Some ''Submitting...''\<rparr>) opts"
  let ?u = "case url opts of
      Some x \<Rightarrow> if x \<noteq> [] then x
                else if f_action f \<noteq> [] then f_action f else location_href env
    | None \<Rightarrow> if f_action f \<noteq> [] then f_action f else location_href env"
  obtain x st2 where mr: "makeRequest env ?u ?config st = (x, st2)"
    by (cases "makeRequest env ?u ?config st")
  have cb: "\<forall>x. successCallback ?config \<noteq> Some (Throws x)"
    using assms(6) by (simp add: spread_successCallback)
  from makeRequest_success [OF assms(2-4) cb, of ?u] mr
  have x: "x = Inr (Success (JObj kvs) r)" and frame: "only_requests st st2" by simp_all
  have valid: "(if data_validate f then validateForm f st else (True, st)) = (True, st)"
    using assms(1) by (simp add: validateForm_def)
  have red: "js_prop (JObj kvs) ''redirect'' = Inr (Some (JStr ''/thanks/''))"
    using assms(5) by (simp add: js_prop_def)
  have sf: "submitForm env f opts st = submit_outcome opts (Success (JObj kvs) r) st2"
    unfolding submitForm_def Let_def valid using mr x by simp
  show ?thesis
    unfolding sf
    using only_requests_page [OF frame] red
    by (simp add: submit_outcome_def Let_def navigations_def resets_def)
qed

theorem redirect_navigates_and_resets_witness:
  "data_validate contact_form \<and> checkValidity contact_form
   \<and> ok (json_response (JObj [(''redirect'', JStr ''/thanks/'')]))
   \<and> navigations (snd (submitForm
        (answering (Responds (json_response (JObj [(''redirect'', JStr ''/thanks/'')]))))
        contact_form (no_options\<lparr>resetForm := Some False\<rparr>) initial)) = [JStr ''/thanks/'']
   \<and> resets (snd (submitForm
        (answering (Responds (json_response (JObj [(''redirect'', JStr ''/thanks/'')]))))
        contact_form (no_options\<lparr>resetForm := Some False\<rparr>) initial)) = 0"
  using redirect_navigates_and_resets
    [where f = contact_form
       and env = "answering (Responds (json_response (JObj [(''redirect'', JStr ''/thanks/'')])))"
       and st = initial and r = "json_response (JObj [(''redirect'', JStr ''/thanks/'')])"
       and kvs = "[(''redirect'', JStr ''/thanks/'')]"
       and opts = "no_options\<lparr>resetForm := Some False\<rparr>"]
  by (simp add: contact_form_def answering_def json_response_def ok_def parse_body_def
      no_options_def navigations_def resets_def initial_def)

text \<open>
  Claim C6 as stated says that the form is not reset. With the default options the form
  is reset once after the navigation.
\<close>

theorem redirect_resets_form:
  "navigations (snd (submitForm
        (answering (Responds (json_response (JObj [(''redirect'', JStr ''/thanks/'')]))))
        contact_form no_options initial)) = [JStr ''/thanks/''] \<and>
   resets (snd (submitForm
        (answering (Responds (json_response (JObj [(''redirect'', JStr ''/thanks/'')]))))
        contact_form no_options initial)) = 1"
  by (simp add: submitForm_def submit_outcome_def validateForm_def js_prop_def contact_form_def
      navigations_def resets_def makeRequest.simps eval_defs)

subsection \<open>A form that fails validation\<close>

text \<open>
  Claim C7, amended. A form with the attribute \<open>data-validate\<close> whose \<open>checkValidity()\<close> is
  false is not submitted: \<open>submitForm\<close> reports the validity, issues no network call and
  returns the failure whose error is \<open>"Form validation failed"\<close>.
\<close>

theorem invalid_form_not_submitted:
  assumes "data_validate f" and "\<not> checkValidity f"
  shows "submitForm env f opts st =
           (Inr (Failure ''Form validation failed''), emit [ReportValidity] st) \<and>
         fetches (snd (submitForm env f opts st)) = fetches st"
  using assms
  by (simp add: submitForm_def validateForm_def Let_def fetches_def is_fetch_def)

theorem invalid_form_not_submitted_witness:
  "data_validate example_form \<and> \<not> checkValidity example_form \<and>
   fst (submitForm (answering (Responds (example_response 200))) example_form no_options initial) =
     Inr (Failure ''Form validation failed'') \<and>
   fetches (snd (submitForm (answering (Responds (example_response 200))) example_form
                   no_options initial)) = 0"
  using invalid_form_not_submitted
    [where f = example_form and env = "answering (Responds (example_response 200))"
       and opts = no_options and st = initial]
  by (simp add: example_form_def fetches_def is_fetch_def initial_def)

text \<open>
  Claim C7 as stated gives the message as \<open>"validation failed"\<close>; the error string of
  line 244 is a different string.
\<close>

theorem validation_failure_message:
  "fst (submitForm (answering (Responds (example_response 200))) example_form no_options initial) \<noteq>
     Inr (Failure ''validation failed'')"
  by (simp add: submitForm_def validateForm_def Let_def example_form_def)

section \<open>Search\<close>

subsection \<open>The URLs a call fetches\<close>

lemma fetched_urls_append:
  "effects st' = effects st @ es \<Longrightarrow>
   fetched_urls st' = fetched_urls st @ concat (map (\<lambda>e. case e of Fetch u ro \<Rightarrow> [u] | _ \<Rightarrow> []) es)"
  by (simp add: fetched_urls_def)





subsection \<open>Debounced search\<close>










section \<open>The loading indicator\<close>

lemma loading_after_retry:
  "resolve_loading env ((spread defaultConfig opts)\<lparr>retries := x\<rparr>) =
     resolve_loading env (spread defaultConfig opts)"
  "show_loading ((spread defaultConfig opts)\<lparr>retries := x\<rparr>) el =
     show_loading (spread defaultConfig opts) el"
  by (simp_all add: resolve_loading_def show_loading_def)


lemma cancellation_attempt:
  assumes "network (attempts env (calls st)) \<in> {TimesOut, CancelledByUrl, CancelledAll}"
  shows "calls (snd (makeRequest env u opts st)) = Suc (calls st)"
proof -
  let ?config = "spread defaultConfig opts"
  obtain x st1 where tb: "try_block env u ?config st = (x, st1)"
    by (cases "try_block env u ?config st")
  from try_block_abort [OF assms, of u ?config] tb
  have tb': "try_block env u ?config st = (Inl abort_error, st1)" by simp
  show ?thesis
    using makeRequest_aborted [OF tb'] try_block_snd_counts [OF tb']
    by (simp add: abort_error_def catch_cleanup_counts)
qed


subsection \<open>The indicator of one element\<close>

lemma cancel_effects_other:
  "Some el \<notin> set (map (pr_loadingElement \<circ> snd) xs) \<Longrightarrow>
   filter (on_element el) (concat (map (cancel_effects \<circ> snd) xs)) = []"
  by (induction xs) (auto simp: cancel_effects_def on_element_def split: option.splits)

lemma cancel_effects_own:
  assumes "Some el \<notin> set (map (pr_loadingElement \<circ> snd) xs)"
    and "pr_loadingElement e = Some el"
  shows "filter (on_element el)
           (concat (map (cancel_effects \<circ> snd) (filter P (AList.update rid e xs)))) =
         (if P (rid, e) then [HideLoading el] else [])"
  using assms
proof (induction xs)
  case Nil
  then show ?case by (simp add: cancel_effects_def on_element_def)
next
  case (Cons x xs)
  obtain k p where x: "x = (k, p)" by (cases x)
  have p: "pr_loadingElement p \<noteq> Some el" using Cons.prems(1) x by auto
  have rest: "filter (on_element el) (concat (map (cancel_effects \<circ> snd) (filter P xs))) = []"
    using Cons.prems(1) by (intro cancel_effects_other) auto
  have one: "filter (on_element el) (cancel_effects p) = []"
    using p by (auto simp: cancel_effects_def on_element_def split: option.splits)
  have own: "filter (on_element el) (cancel_effects e) = [HideLoading el]"
    using Cons.prems(2) by (simp add: cancel_effects_def on_element_def)
  show ?case
  proof (cases "k = rid")
    case True
    then show ?thesis using x rest own by (simp add: comp_def)
  next
    case False
    then show ?thesis using x one Cons by (simp add: comp_def)
  qed
qed

lemma update_set_subset: "set (AList.update rid e xs) \<subseteq> insert (rid, e) (set xs)"
  by (induction xs) auto

lemma indicator_free_subset:
  assumes "indicator_free el st" and "set (pendingRequests st') \<subseteq> set (pendingRequests st)"
  shows "indicator_free el st'"
  using assms by (auto simp: indicator_free_def)

lemma delete_subset: "set (AList.delete k xs) \<subseteq> set xs"
  by (auto simp: AList.delete_eq)

lemma delete_update_subset: "set (AList.delete rid (AList.update rid e xs)) \<subseteq> set xs"
  by (simp add: delete_update_same delete_subset)

lemma filter_keys_update_subset:
  assumes "rid \<in> K"
  shows "set (filter (\<lambda>(k, p). k \<notin> K) (AList.update rid e xs)) \<subseteq> set xs"
  using assms update_set_subset [of rid e xs] by auto

lemma map_of_filter_keys:
  "rid \<in> K \<Longrightarrow> map_of (filter (\<lambda>(k, p). k \<notin> K) xs) rid = None"
  by (induction xs) auto

lemma begin_general:
  assumes "indicator_free el st" and "resolve_loading env config = Some el"
  shows "\<exists>e s1 xs. makeRequest_begin env u config st = (e, s1) \<and> pr_url e = u \<and>
           pr_loadingElement e = Some el \<and>
           pendingRequests s1 = AList.update (requestId (attempts env (calls st))) e xs \<and>
           set xs \<subseteq> set (pendingRequests st) \<and>
           indicator_trace el s1 = indicator_trace el st @ [show_loading config el]"
proof -
  let ?p = "makeRequest_begin env u config st"
  let ?stc = "if cancelPending config = Some False then st else cancelPendingRequest u st"
  have free: "Some el \<notin> set (map (pr_loadingElement \<circ> snd) (pendingRequests st))"
    using assms(1) by (simp add: indicator_free_def)
  have sub: "set (pendingRequests ?stc) \<subseteq> set (pendingRequests st)"
    by (auto simp: cancelPendingRequest_fields)
  have "Some el \<notin> set (map (pr_loadingElement \<circ> snd)
          (filter (cancelled_by u) (pendingRequests st)))"
    using free by auto
  then have quiet: "filter (on_element el) (effects ?stc) = filter (on_element el) (effects st)"
    by (simp add: cancelPendingRequest_fields cancel_effects_other)
  have trace: "indicator_trace el (snd ?p) = indicator_trace el st @ [show_loading config el]"
    unfolding indicator_trace_def begin_effects_exact
    using quiet assms(2) by (simp add: on_element_def show_loading_def)
  have "?p = (fst ?p, snd ?p)" by simp
  moreover have "pr_url (fst ?p) = u" by (rule begin_registry(1))
  moreover have "pr_loadingElement (fst ?p) = Some el"
    using assms(2) by (simp add: begin_handles)
  moreover have "pendingRequests (snd ?p) =
      AList.update (requestId (attempts env (calls st))) (fst ?p) (pendingRequests ?stc)"
    by (rule begin_registry(2))
  ultimately show ?thesis using sub trace by blast
qed

lemma attempt_general:
  assumes "indicator_free el st" and "resolve_loading env config = Some el"
    and "try_block env u config st = (x, st1)"
    and "st2 = (case x of Inr res \<Rightarrow> st1
                | Inl e \<Rightarrow> catch_cleanup (requestId (attempts env (calls st))) st1)"
  shows "indicator_trace el st2 = indicator_trace el st @ [show_loading config el, HideLoading el] \<and>
         set (pendingRequests st2) \<subseteq> set (pendingRequests st)"
proof -
  let ?rid = "requestId (attempts env (calls st))"
  obtain e s1 xs where b: "makeRequest_begin env u config st = (e, s1)"
    and url: "pr_url e = u" and le: "pr_loadingElement e = Some el"
    and reg: "pendingRequests s1 = AList.update ?rid e xs"
    and sub: "set xs \<subseteq> set (pendingRequests st)"
    and tr: "indicator_trace el s1 = indicator_trace el st @ [show_loading config el]"
    using begin_general [OF assms(1,2)] by blast
  have free: "Some el \<notin> set (map (pr_loadingElement \<circ> snd) xs)"
    using assms(1) sub by (auto simp: indicator_free_def)
  have found: "map_of (pendingRequests s1) ?rid = Some e"
    by (simp add: reg update_conv')
  have del: "set (AList.delete ?rid (pendingRequests s1)) \<subseteq> set (pendingRequests st)"
    using delete_update_subset [of ?rid e xs] sub by (simp add: reg)
  have gone: "map_of (AList.delete ?rid (pendingRequests s1)) ?rid = None"
    by (simp add: delete_conv')
  have tr': "filter (on_element el) (effects s1) =
      filter (on_element el) (effects st) @ [show_loading config el]"
    using tr by (simp add: indicator_trace_def)
  show ?thesis
  proof (cases "network (attempts env (calls st))")
    case (Responds r)
    then show ?thesis
      using assms(3,4) b found del gone tr' le
      by (auto simp: try_block_def Let_def during_await_def request_def after_response_def
          catch_cleanup_def indicator_trace_def on_element_def
          split: sum.splits if_splits option.splits callback.splits)
  next
    case (Fails err)
    then show ?thesis
      using assms(3,4) b found del tr' le
      by (auto simp: try_block_def Let_def during_await_def request_def
          catch_cleanup_def indicator_trace_def on_element_def)
  next
    case TimesOut
    then show ?thesis
      using assms(3,4) b found del tr' le
      by (auto simp: try_block_def Let_def during_await_def request_def
          catch_cleanup_def indicator_trace_def on_element_def)
  next
    case CancelledByUrl
    let ?K = "fst ` set (filter (cancelled_by u) (pendingRequests s1))"
    have "(?rid, e) \<in> set (pendingRequests s1)" using found by (rule map_of_SomeD)
    then have inK: "?rid \<in> ?K" using url by (force simp: cancelled_by_def)
    have hit: "cancelled_by u (?rid, e)" using url by (simp add: cancelled_by_def)
    have eff: "filter (on_element el) (effects (cancelPendingRequest u s1)) =
        filter (on_element el) (effects st) @ [show_loading config el, HideLoading el]"
      using cancel_effects_own [OF free le, of "cancelled_by u" ?rid] hit tr'
      by (simp add: cancelPendingRequest_fields reg)
    have none: "map_of (pendingRequests (cancelPendingRequest u s1)) ?rid = None"
      using map_of_filter_keys [OF inK] by (simp add: cancelPendingRequest_fields)
    have "set (pendingRequests (cancelPendingRequest u s1)) \<subseteq> set xs"
      using filter_keys_update_subset [OF inK [unfolded reg], of e xs]
      by (simp add: cancelPendingRequest_fields reg)
    then have sub': "set (pendingRequests (cancelPendingRequest u s1)) \<subseteq> set (pendingRequests st)"
      using sub by blast
    show ?thesis
      using CancelledByUrl assms(3,4) b eff none sub'
      by (auto simp: try_block_def Let_def during_await_def request_def
          catch_cleanup_def indicator_trace_def)
  next
    case CancelledAll
    have eff: "filter (on_element el) (effects (cancelAllRequests s1)) =
        filter (on_element el) (effects st) @ [show_loading config el, HideLoading el]"
      using cancel_effects_own [OF free le, of "\<lambda>x. True" ?rid] tr'
      by (simp add: cancelAllRequests_fields reg)
    show ?thesis
      using CancelledAll assms(3,4) b eff
      by (auto simp: try_block_def Let_def during_await_def request_def
          catch_cleanup_def indicator_trace_def cancelAllRequests_fields)
  qed
qed

lemma indicator_unchanged:
  "indicator_trace el (emit [Delay ms] st) = indicator_trace el st"
  "indicator_trace el (snd (report_failure config e st)) = indicator_trace el st"
  "indicator_free el (emit [Delay ms] st) = indicator_free el st"
  "indicator_free el (snd (report_failure config e st)) = indicator_free el st"
  by (simp_all add: indicator_trace_def indicator_free_def on_element_def report_failure_def
      Let_def split: option.splits callback.splits)

lemma indicator_each_attempt:
  assumes "resolve_loading env (spread defaultConfig opts) = Some el"
    and "indicator_free el st"
  shows "indicator_trace el (snd (makeRequest env u opts st)) =
           indicator_trace el st @
           concat (replicate (calls (snd (makeRequest env u opts st)) - calls st)
                     [show_loading (spread defaultConfig opts) el, HideLoading el]) \<and>
         indicator_free el (snd (makeRequest env u opts st))"
  using assms
proof (induction env u opts st rule: makeRequest.induct)
  case (1 env u opts st)
  let ?config = "spread defaultConfig opts"
  let ?rid = "requestId (attempts env (calls st))"
  let ?pair = "[show_loading ?config el, HideLoading el]"
  obtain x st1 where tb: "try_block env u ?config st = (x, st1)"
    by (cases "try_block env u ?config st")
  note cnt = try_block_snd_counts [OF tb]
  note one = attempt_general [OF "1.prems"(2) "1.prems"(1) tb]
  show ?case
  proof (cases x)
    case (Inr res)
    have "indicator_free el st1"
      using one [of st1] Inr "1.prems"(2) by (auto intro: indicator_free_subset)
    then show ?thesis
      using makeRequest_returns [of env u opts st res st1] tb cnt one [of st1] Inr by simp
  next
    case (Inl e)
    note tb' = tb [unfolded Inl]
    have cl: "indicator_trace el (catch_cleanup ?rid st1) = indicator_trace el st @ ?pair"
      "set (pendingRequests (catch_cleanup ?rid st1)) \<subseteq> set (pendingRequests st)"
      using one [of "catch_cleanup ?rid st1"] Inl by simp_all
    have fr: "indicator_free el (catch_cleanup ?rid st1)"
      using "1.prems"(2) cl(2) by (rule indicator_free_subset)
    show ?thesis
    proof (cases "name e = ''AbortError''")
      case True
      then show ?thesis
        using makeRequest_aborted [OF tb' True] cnt cl fr by (simp add: catch_cleanup_counts)
    next
      case False
      show ?thesis
      proof (cases "retry_wanted ?config e")
        case True
        then obtain n where n: "retries ?config = Some n" "0 < n"
          using retry_wanted_Some by blast
        let ?st2 = "emit [Delay (retryDelay ?config)] (catch_cleanup ?rid st1)"
        let ?opts' = "?config\<lparr>retries := Some (n - 1)\<rparr>"
        let ?st' = "snd (makeRequest env u ?opts' ?st2)"
        have mr: "makeRequest env u opts st = makeRequest env u ?opts' ?st2"
          using makeRequest_retries [OF tb' False True n(1)] .
        have pre: "resolve_loading env (spread defaultConfig ?opts') = Some el"
          "indicator_free el ?st2"
          using fr "1.prems"(1)
          by (simp_all add: spread_default_retry loading_after_retry indicator_unchanged)
        have IH: "indicator_trace el ?st' =
            indicator_trace el ?st2 @ concat (replicate (calls ?st' - calls ?st2) ?pair) \<and>
            indicator_free el ?st'"
          using "1.IH" [OF refl refl tb' [symmetric] refl refl False True] n(1) pre
          by (simp add: spread_default_retry loading_after_retry)
        have st2: "calls ?st2 = Suc (calls st)"
          using cnt by (simp add: catch_cleanup_counts)
        have "calls ?st2 < calls ?st'"
          using makeRequest_counts [of ?st2 env u ?opts'] by simp
        then have k: "calls ?st' - calls st = Suc (calls ?st' - calls ?st2)"
          using st2 by simp
        show ?thesis
          unfolding mr k using IH cl by (simp add: indicator_unchanged)
      next
        case nr: False
        then show ?thesis
          using makeRequest_fails [OF tb' False nr] cnt cl fr
          by (simp add: catch_cleanup_counts report_failure_counts indicator_unchanged)
      qed
    qed
  qed
qed

lemma first_attempt_success:
  assumes "network (attempts env (calls st)) = Responds r" and "ok r"
    and "parse_body r = Inr d" and "\<forall>x. successCallback opts \<noteq> Some (Throws x)"
  shows "calls (snd (makeRequest env u opts st)) - calls st = 1"
  using makeRequest_success [OF assms, of u] by simp

text \<open>
  Claim C5, amended. A call that activates the loading indicator of an element \<open>el\<close> that
  no other pending request holds deactivates it once per attempt, on every outcome path;
  the environment chooses, for each attempt, a response of any status, a transport
  failure, the timeout, or an explicit cancellation. The events on \<open>el\<close> during the call
  are the pair activation, deactivation, \<open>k\<close> times, where \<open>k\<close> is the number of attempts
  (the first and each retry, which is a call of \<open>makeRequest\<close> of its own): at least one
  and at most one more than the retry budget. The pair occurs exactly once when the first
  attempt is cancelled or times out, when it succeeds, or when there is no retry budget.
\<close>

theorem loading_indicator_released_once:
  assumes "resolve_loading env (spread defaultConfig opts) = Some el"
    and "indicator_free el st"
  shows "indicator_trace el (snd (makeRequest env u opts st)) =
           indicator_trace el st @
           concat (replicate (calls (snd (makeRequest env u opts st)) - calls st)
                     [show_loading (spread defaultConfig opts) el, HideLoading el]) \<and>
         1 \<le> calls (snd (makeRequest env u opts st)) - calls st \<and>
         calls (snd (makeRequest env u opts st)) - calls st \<le> Suc (retry_budget opts) \<and>
         fetches (snd (makeRequest env u opts st)) - fetches st =
           calls (snd (makeRequest env u opts st)) - calls st \<and>
         (network (attempts env (calls st)) \<in> {TimesOut, CancelledByUrl, CancelledAll} \<or>
          retry_budget opts = 0 \<or>
          (\<exists>r d. network (attempts env (calls st)) = Responds r \<and> ok r \<and>
                 parse_body r = Inr d \<and> (\<forall>x. successCallback opts \<noteq> Some (Throws x))) \<longrightarrow>
            indicator_trace el (snd (makeRequest env u opts st)) =
              indicator_trace el st @ [show_loading (spread defaultConfig opts) el, HideLoading el])"
proof -
  let ?st' = "snd (makeRequest env u opts st)"
  let ?k = "calls ?st' - calls st"
  note tr = indicator_each_attempt [OF assms, of u, THEN conjunct1]
  have lo: "1 \<le> ?k"
    using makeRequest_counts [of st env u opts] by linarith
  have hi: "?k \<le> Suc (retry_budget opts)"
    using makeRequest_attempts_bound [of env u opts st] by simp
  have fe: "fetches ?st' - fetches st = ?k"
    using makeRequest_counts [of st env u opts] by linarith
  have one: "?k = 1"
    if "network (attempts env (calls st)) \<in> {TimesOut, CancelledByUrl, CancelledAll} \<or>
        retry_budget opts = 0 \<or>
        (\<exists>r d. network (attempts env (calls st)) = Responds r \<and> ok r \<and>
               parse_body r = Inr d \<and> (\<forall>x. successCallback opts \<noteq> Some (Throws x)))"
    using that
  proof (elim disjE exE conjE)
    assume "network (attempts env (calls st)) \<in> {TimesOut, CancelledByUrl, CancelledAll}"
    then show ?thesis using cancellation_attempt [of env st u opts] by simp
  next
    assume "retry_budget opts = 0"
    then show ?thesis using lo hi by simp
  next
    fix r d
    assume "network (attempts env (calls st)) = Responds r" "ok r" "parse_body r = Inr d"
      "\<forall>x. successCallback opts \<noteq> Some (Throws x)"
    then show ?thesis by (rule first_attempt_success)
  qed
  have single: "indicator_trace el ?st' =
      indicator_trace el st @ [show_loading (spread defaultConfig opts) el, HideLoading el]"
    if "?k = 1"
    using tr that by simp
  show ?thesis
    using tr lo hi fe one single by blast
qed

theorem loading_indicator_released_once_witness:
  "resolve_loading (numbered CancelledAll)
     (spread defaultConfig (no_options\<lparr>loadingElement := Some (Element ''button'')\<rparr>)) =
     Some ''button'' \<and>
   indicator_free ''button''
     (run (numbered CancelledAll)
        [Begin ''/other'' (no_options\<lparr>loadingElement := Some (Element ''spinner'')\<rparr>)] initial) \<and>
   indicator_trace ''button''
     (snd (makeRequest (numbered CancelledAll) ''/api''
             (no_options\<lparr>loadingElement := Some (Element ''button'')\<rparr>)
             (run (numbered CancelledAll)
                [Begin ''/other'' (no_options\<lparr>loadingElement := Some (Element ''spinner'')\<rparr>)]
                initial))) =
     [ShowLoading ''button'' ''Loading...'', HideLoading ''button'']"
proof -
  let ?env = "numbered CancelledAll"
  let ?opts = "no_options\<lparr>loadingElement := Some (Element ''button'')\<rparr>"
  let ?st = "run ?env [Begin ''/other'' (no_options\<lparr>loadingElement := Some (Element ''spinner'')\<rparr>)]
               initial"
  have pre: "resolve_loading ?env (spread defaultConfig ?opts) = Some ''button''"
    by (simp add: resolve_loading_def spread_def override_def defaultConfig_def no_options_def)
  have st: "pendingRequests ?st =
      [(''req_0'', \<lparr>pr_controller = 0, pr_url = ''/other'', pr_timeoutId = 1,
                    pr_loadingElement = Some ''spinner''\<rparr>)]"
    "effects ?st = [ShowLoading ''spinner'' ''Loading...'', SetTimeout 1 (Some 30000),
                    Fetch ''/other'' (requestOptions (spread defaultConfig
                      (no_options\<lparr>loadingElement := Some (Element ''spinner'')\<rparr>)))]"
    "calls ?st = 1"
    by (simp_all add: run_def makeRequest_begin_def Let_def cancelPendingRequest_def
        resolve_loading_def show_loading_def initial_def emit_def numbered_def
        spread_def override_def defaultConfig_def no_options_def string_of_nat.simps digit_def)
  have free: "indicator_free ''button'' ?st"
    by (simp add: indicator_free_def st)
  have ev: "network (attempts ?env (calls ?st)) \<in> {TimesOut, CancelledByUrl, CancelledAll}"
    by (simp add: numbered_def)
  have "indicator_trace ''button'' (snd (makeRequest ?env ''/api'' ?opts ?st)) =
      indicator_trace ''button'' ?st @
      [show_loading (spread defaultConfig ?opts) ''button'', HideLoading ''button'']"
    using loading_indicator_released_once [OF pre free, of "''/api''"] ev by blast
  moreover have "indicator_trace ''button'' ?st = []"
    by (simp add: indicator_trace_def st on_element_def)
  moreover have "show_loading (spread defaultConfig ?opts) ''button'' =
      ShowLoading ''button'' ''Loading...''"
    by (simp add: show_loading_def spread_def override_def defaultConfig_def no_options_def)
  ultimately show ?thesis
    using pre free by simp
qed

text \<open>
  Claim C5 as stated says that the indicator is deactivated exactly once for the call, also
  when the retries are exhausted. Against a server that answers 500, a call with the
  default configuration activates and deactivates the indicator four times.
\<close>

theorem retried_call_hides_four_times:
  "indicator_trace ''button''
     (snd (makeRequest (answering (Responds (example_response 500))) ''/api''
             (no_options\<lparr>loadingElement := Some (Element ''button'')\<rparr>) initial)) =
     [ShowLoading ''button'' ''Loading...'', HideLoading ''button'',
      ShowLoading ''button'' ''Loading...'', HideLoading ''button'',
      ShowLoading ''button'' ''Loading...'', HideLoading ''button'',
      ShowLoading ''button'' ''Loading...'', HideLoading ''button'']"
  by (simp add: indicator_trace_def on_element_def makeRequest.simps eval_defs)


section \<open>The effective configuration\<close>

subsection \<open>The schedule of a call\<close>

lemma schedule_emit: "schedule (emit es st) = schedule st @ concat (map summary es)"
  by (simp add: schedule_def)

lemma summary_cancel_effects: "concat (map summary (concat (map (cancel_effects \<circ> snd) xs))) = []"
  by (induction xs) (auto simp: cancel_effects_def summary_def split: option.splits)

lemma schedule_cancel:
  "schedule (cancelPendingRequest u st) = schedule st"
  "schedule (cancelAllRequests st) = schedule st"
  by (simp_all add: schedule_def cancel_fields summary_cancel_effects)

lemma schedule_registry: "schedule (st\<lparr>pendingRequests := xs\<rparr>) = schedule st"
  by (simp add: schedule_def)

lemma schedule_begin:
  "schedule (snd (makeRequest_begin env u config st)) = schedule st @ attempt_steps env u config"
proof -
  have "schedule (if cancelPending config = Some False then st else cancelPendingRequest u st) =
      schedule st"
    by (simp add: schedule_cancel)
  then show ?thesis
    unfolding schedule_def begin_effects_exact
    by (simp add: attempt_steps_def summary_def show_loading_def begin_handles
        split: option.splits)
qed

lemma schedule_await: "schedule (during_await u c ev st) = schedule st"
  by (cases ev) (simp_all add: during_await_def schedule_cancel schedule_emit summary_def)

lemma schedule_after_response:
  "schedule (snd (after_response config rid loc r st)) = schedule st"
  by (simp add: after_response_def Let_def schedule_def summary_def
      split: option.splits sum.splits callback.splits)

lemma schedule_try_block:
  "schedule (snd (try_block env u config st)) = schedule st @ attempt_steps env u config"
proof -
  obtain loc st1 where b: "makeRequest_begin env u config st = (loc, st1)"
    by (cases "makeRequest_begin env u config st")
  have "schedule st1 = schedule st @ attempt_steps env u config"
    using schedule_begin [of env u config st] b by simp
  then show ?thesis
    using b
    by (simp add: try_block_def Let_def schedule_await schedule_after_response split: sum.splits)
qed

lemma schedule_catch_cleanup: "schedule (catch_cleanup rid st) = schedule st"
  by (auto simp: catch_cleanup_def schedule_def summary_def split: option.splits)

lemma schedule_report_failure:
  "schedule (snd (report_failure config e st)) =
     schedule st @
     (if showErrors config = Some True then [Notifies (JStr (message e)) ''danger''] else [])"
  by (simp add: report_failure_def Let_def schedule_def summary_def
      split: option.splits callback.splits)

lemma after_retry_same:
  "attempt_steps env u ((spread defaultConfig opts)\<lparr>retries := x\<rparr>) =
     attempt_steps env u (spread defaultConfig opts)"
  "requestOptions ((spread defaultConfig opts)\<lparr>retries := x\<rparr>) =
     requestOptions (spread defaultConfig opts)"
  by (simp_all add: attempt_steps_def resolve_loading_def requestOptions_def
      cong: option.case_cong)

lemma replicate_chunk:
  "1 \<le> k \<Longrightarrow> x @ concat (replicate (k - 1) x) = concat (replicate k x)"
  by (cases k) simp_all

lemma makeRequest_schedule:
  "\<exists>fin.
     schedule (snd (makeRequest env u opts st)) =
       schedule st @ attempt_steps env u (spread defaultConfig opts) @
       concat (replicate (calls (snd (makeRequest env u opts st)) - calls st - 1)
                 (Waits (retryDelay (spread defaultConfig opts)) #
                  attempt_steps env u (spread defaultConfig opts))) @ fin \<and>
     (fin = [] \<or>
      showErrors (spread defaultConfig opts) = Some True \<and>
      (\<exists>m. fin = [Notifies (JStr m) ''danger''])) \<and>
     (\<forall>r. (\<forall>j. network (attempts env j) = Responds r) \<and> \<not> ok r \<and>
          CHR ''4'' \<notin> set (string_of_nat (status r)) \<longrightarrow>
        fin = (if showErrors (spread defaultConfig opts) = Some True
               then [Notifies (JStr (''HTTP error! status: '' @ string_of_nat (status r)))
                       ''danger'']
               else []))"
proof (induction env u opts st rule: makeRequest.induct)
  case (1 env u opts st)
  let ?config = "spread defaultConfig opts"
  let ?rid = "requestId (attempts env (calls st))"
  let ?A = "attempt_steps env u ?config"
  let ?W = "Waits (retryDelay ?config) # ?A"
  obtain x st1 where tb: "try_block env u ?config st = (x, st1)"
    by (cases "try_block env u ?config st")
  note cnt = try_block_snd_counts [OF tb]
  have sch1: "schedule st1 = schedule st @ ?A"
    using schedule_try_block [of env u ?config st] tb by simp
  have thrown: "x = Inl (JsError ''Error'' (''HTTP error! status: '' @ string_of_nat (status r)))"
    if "\<forall>j. network (attempts env j) = Responds r" "\<not> ok r" for r
    using try_block_not_ok [of env st r u ?config] that tb by simp
  show ?case
  proof (cases x)
    case (Inr res)
    have mr: "makeRequest env u opts st = (Inr res, st1)"
      using makeRequest_returns [of env u opts st res st1] tb Inr by simp
    show ?thesis
      unfolding mr using sch1 cnt(1) thrown Inr
      by (intro exI [of _ "[]"]) auto
  next
    case (Inl e)
    note tb' = tb [unfolded Inl]
    have sch2: "schedule (catch_cleanup ?rid st1) = schedule st @ ?A"
      using sch1 by (simp add: schedule_catch_cleanup)
    show ?thesis
    proof (cases "name e = ''AbortError''")
      case True
      have mr: "makeRequest env u opts st =
          (Inr (Failure ''Request cancelled''), catch_cleanup ?rid st1)"
        using makeRequest_aborted [OF tb' True] .
      have "e \<noteq> JsError ''Error'' m" for m using True by auto
      then show ?thesis
        unfolding mr using sch2 cnt(1) thrown Inl
        by (intro exI [of _ "[]"]) (auto simp: catch_cleanup_counts)
    next
      case False
      show ?thesis
      proof (cases "retry_wanted ?config e")
        case True
        then obtain n where n: "retries ?config = Some n" "0 < n"
          using retry_wanted_Some by blast
        let ?st2 = "emit [Delay (retryDelay ?config)] (catch_cleanup ?rid st1)"
        let ?opts' = "?config\<lparr>retries := Some (n - 1)\<rparr>"
        let ?st' = "snd (makeRequest env u ?opts' ?st2)"
        have mr: "makeRequest env u opts st = makeRequest env u ?opts' ?st2"
          using makeRequest_retries [OF tb' False True n(1)] .
        have same: "spread defaultConfig ?opts' = ?opts'"
          "attempt_steps env u ?opts' = ?A" "retryDelay ?opts' = retryDelay ?config"
          "showErrors ?opts' = showErrors ?config"
          by (simp_all add: spread_default_retry after_retry_same)
        have ih: "\<exists>fin. schedule ?st' =
              schedule ?st2 @ ?A @ concat (replicate (calls ?st' - calls ?st2 - 1) ?W) @ fin \<and>
            (fin = [] \<or>
             showErrors ?config = Some True \<and> (\<exists>m. fin = [Notifies (JStr m) ''danger''])) \<and>
            (\<forall>r. (\<forall>j. network (attempts env j) = Responds r) \<and> \<not> ok r \<and>
                CHR ''4'' \<notin> set (string_of_nat (status r)) \<longrightarrow>
              fin = (if showErrors ?config = Some True
                     then [Notifies (JStr (''HTTP error! status: '' @ string_of_nat (status r)))
                             ''danger'']
                     else []))"
          using "1.IH" [OF refl refl tb' [symmetric] refl refl False True] n(1)
          by (simp add: same)
        then obtain fin where fin: "schedule ?st' =
            schedule ?st2 @ ?A @ concat (replicate (calls ?st' - calls ?st2 - 1) ?W) @ fin"
          and shape: "fin = [] \<or>
            showErrors ?config = Some True \<and> (\<exists>m. fin = [Notifies (JStr m) ''danger''])"
          and failing: "\<forall>r. (\<forall>j. network (attempts env j) = Responds r) \<and> \<not> ok r \<and>
              CHR ''4'' \<notin> set (string_of_nat (status r)) \<longrightarrow>
            fin = (if showErrors ?config = Some True
                   then [Notifies (JStr (''HTTP error! status: '' @ string_of_nat (status r)))
                           ''danger'']
                   else [])"
          by blast
        have st2: "calls ?st2 = Suc (calls st)"
          "schedule ?st2 = schedule st @ ?A @ [Waits (retryDelay ?config)]"
          using cnt sch2 by (simp_all add: catch_cleanup_counts schedule_emit summary_def)
        have more: "calls ?st2 < calls ?st'"
          using makeRequest_counts [of ?st2 env u ?opts'] by simp
        then have k: "calls ?st' - calls st - 1 = Suc (calls ?st' - calls ?st2 - 1)"
          using st2 by simp
        have "schedule ?st' = schedule st @ ?A @ concat (replicate (calls ?st' - calls st - 1) ?W) @ fin"
          unfolding k fin st2 by simp
        then show ?thesis
          unfolding mr using shape failing by blast
      next
        case nr: False
        let ?fin = "if showErrors ?config = Some True
                    then [Notifies (JStr (message e)) ''danger''] else []"
        have mr: "makeRequest env u opts st = report_failure ?config e (catch_cleanup ?rid st1)"
          using makeRequest_fails [OF tb' False nr] .
        have sch: "schedule (snd (report_failure ?config e (catch_cleanup ?rid st1))) =
            schedule st @ ?A @ ?fin"
          using sch2 by (simp add: schedule_report_failure)
        have k: "calls (snd (report_failure ?config e (catch_cleanup ?rid st1))) - calls st - 1 = 0"
          using cnt by (simp add: report_failure_counts catch_cleanup_counts)
        have "message e = ''HTTP error! status: '' @ string_of_nat (status r)"
          if "\<forall>j. network (attempts env j) = Responds r" "\<not> ok r" for r
          using thrown [OF that] Inl by auto
        then show ?thesis
          unfolding mr k using sch
          by (intro exI [of _ ?fin]) auto
      qed
    qed
  qed
qed

lemma only_requests_from_begin:
  "only_requests (snd (makeRequest_begin env u config st)) (snd (try_block env u config st))"
proof -
  obtain loc st1 where b: "makeRequest_begin env u config st = (loc, st1)"
    by (cases "makeRequest_begin env u config st")
  let ?ev = "network (attempts env (calls st))"
  let ?st2 = "during_await u (pr_controller loc) ?ev st1"
  have 2: "only_requests st1 ?st2" by (rule only_requests_await)
  show ?thesis
  proof (cases "request (fetch ?ev)")
    case (Inl e)
    then show ?thesis using 2 b by (simp add: try_block_def Let_def)
  next
    case (Inr r)
    have "only_requests st1 (snd (after_response config (requestId (attempts env (calls st))) loc r ?st2))"
      using 2 only_requests_after_response by (rule only_requests_trans)
    then show ?thesis using Inr b by (simp add: try_block_def Let_def)
  qed
qed

lemma only_requests_catch_cleanup: "only_requests st (catch_cleanup rid st)"
  by (simp add: catch_cleanup_def only_requests_def request_effect_def split: option.splits)

lemma only_requests_report_failure: "only_requests st (snd (report_failure config e st))"
  by (simp add: report_failure_def Let_def only_requests_def request_effect_def
      split: option.splits callback.splits)

lemma makeRequest_after_begin:
  "only_requests (snd (makeRequest_begin env u (spread defaultConfig opts) st))
     (snd (makeRequest env u opts st))"
proof (induction env u opts st rule: makeRequest.induct)
  case (1 env u opts st)
  let ?config = "spread defaultConfig opts"
  let ?rid = "requestId (attempts env (calls st))"
  let ?b = "snd (makeRequest_begin env u ?config st)"
  obtain x st1 where tb: "try_block env u ?config st = (x, st1)"
    by (cases "try_block env u ?config st")
  have first: "only_requests ?b st1"
    using only_requests_from_begin [of env u ?config st] tb by simp
  have cleaned: "only_requests ?b (catch_cleanup ?rid st1)"
    using first only_requests_catch_cleanup by (rule only_requests_trans)
  show ?case
  proof (cases x)
    case (Inr res)
    then show ?thesis
      using makeRequest_returns [of env u opts st res st1] tb first by simp
  next
    case (Inl e)
    note tb' = tb [unfolded Inl]
    show ?thesis
    proof (cases "name e = ''AbortError''")
      case True
      then show ?thesis
        using makeRequest_aborted [OF tb' True] cleaned by simp
    next
      case False
      show ?thesis
      proof (cases "retry_wanted ?config e")
        case True
        then obtain n where n: "retries ?config = Some n" "0 < n"
          using retry_wanted_Some by blast
        let ?st2 = "emit [Delay (retryDelay ?config)] (catch_cleanup ?rid st1)"
        let ?opts' = "?config\<lparr>retries := Some (n - 1)\<rparr>"
        have mr: "makeRequest env u opts st = makeRequest env u ?opts' ?st2"
          using makeRequest_retries [OF tb' False True n(1)] .
        have IH: "only_requests (snd (makeRequest_begin env u ?opts' ?st2))
            (snd (makeRequest env u ?opts' ?st2))"
          using "1.IH" [OF refl refl tb' [symmetric] refl refl False True] n(1)
          by (simp add: spread_default_retry)
        have "only_requests (catch_cleanup ?rid st1) ?st2"
          by (rule only_requests_emit) (simp add: request_effect_def)
        with cleaned have "only_requests ?b ?st2" by (rule only_requests_trans)
        then have "only_requests ?b (snd (makeRequest_begin env u ?opts' ?st2))"
          using only_requests_begin by (rule only_requests_trans)
        then show ?thesis
          unfolding mr using IH by (rule only_requests_trans)
      next
        case nr: False
        have "only_requests ?b (snd (report_failure ?config e (catch_cleanup ?rid st1)))"
          using cleaned only_requests_report_failure by (rule only_requests_trans)
        then show ?thesis
          using makeRequest_fails [OF tb' False nr] by simp
      qed
    qed
  qed
qed

lemma spread_default_fields:
  "timeout (spread defaultConfig opts) = Some (case timeout opts of Some v \<Rightarrow> v | None \<Rightarrow> 30000)"
  "retries (spread defaultConfig opts) = Some (case retries opts of Some v \<Rightarrow> v | None \<Rightarrow> 3)"
  "retryDelay (spread defaultConfig opts) =
     Some (case retryDelay opts of Some v \<Rightarrow> v | None \<Rightarrow> 1000)"
  "showLoading (spread defaultConfig opts) =
     Some (case showLoading opts of Some v \<Rightarrow> v | None \<Rightarrow> True)"
  "showErrors (spread defaultConfig opts) =
     Some (case showErrors opts of Some v \<Rightarrow> v | None \<Rightarrow> True)"
  by (simp_all add: spread_def override_def defaultConfig_def no_options_def
      split: option.splits)

lemma spread_default_through:
  "cancelPending (spread defaultConfig opts) = cancelPending opts"
  "http_method (spread defaultConfig opts) = http_method opts"
  "headers (spread defaultConfig opts) = headers opts"
  "data (spread defaultConfig opts) = data opts"
  "loadingElement (spread defaultConfig opts) = loadingElement opts"
  "loadingText (spread defaultConfig opts) = loadingText opts"
  "successCallback (spread defaultConfig opts) = successCallback opts"
  "errorCallback (spread defaultConfig opts) = errorCallback opts"
  by (simp_all add: spread_def override_def defaultConfig_def no_options_def
      split: option.splits)

lemma spread_default_flags:
  "(showErrors (spread defaultConfig opts) = Some True) = (showErrors opts \<noteq> Some False)"
  "(showLoading (spread defaultConfig opts) = Some True) = (showLoading opts \<noteq> Some False)"
  by (auto simp: spread_default_fields split: option.splits)

lemma retry_budget_merged:
  "retry_budget opts = nat (case retries opts of Some v \<Rightarrow> v | None \<Rightarrow> 3)"
  by (simp add: retry_budget_def spread_default_fields)

lemma resolve_loading_merged:
  "resolve_loading env (spread defaultConfig opts) =
     (if showLoading opts = Some False then None
      else resolve_loading env (opts\<lparr>showLoading := Some True\<rparr>))"
  by (simp add: resolve_loading_def spread_default_flags spread_default_through)

lemma attempt_steps_merged:
  "attempt_steps env u (spread defaultConfig opts) =
     (case resolve_loading env (spread defaultConfig opts) of
        Some el \<Rightarrow> [Shows el (case loadingText opts of Some t \<Rightarrow> t | None \<Rightarrow> ''Loading...'')]
      | None \<Rightarrow> []) @
     [Timer (Some (case timeout opts of Some v \<Rightarrow> v | None \<Rightarrow> 30000)),
      Fetches u (requestOptions (spread defaultConfig opts))]"
  by (simp add: attempt_steps_def spread_default_fields spread_default_through
      cong: option.case_cong)

lemma makeRequest_first_effects:
  "\<exists>es. effects (snd (makeRequest env u opts st)) =
     effects st @
     (if cancelPending opts = Some False then []
      else concat (map (cancel_effects \<circ> snd) (filter (cancelled_by u) (pendingRequests st)))) @
     (case resolve_loading env (spread defaultConfig opts) of
        Some el \<Rightarrow> [ShowLoading el (case loadingText opts of Some t \<Rightarrow> t | None \<Rightarrow> ''Loading...'')]
      | None \<Rightarrow> []) @
     [SetTimeout (Suc (nextHandle st))
        (Some (case timeout opts of Some v \<Rightarrow> v | None \<Rightarrow> 30000)),
      Fetch u (requestOptions (spread defaultConfig opts))] @ es"
proof -
  let ?config = "spread defaultConfig opts"
  obtain es where es: "effects (snd (makeRequest env u opts st)) =
      effects (snd (makeRequest_begin env u ?config st)) @ es"
    using makeRequest_after_begin [of env u opts st] by (auto simp: only_requests_def)
  show ?thesis
    unfolding es begin_effects_exact
    by (simp add: begin_handles cancelPendingRequest_fields spread_default_fields
        spread_default_through show_loading_def split: option.splits)
qed

text \<open>
  Claim C10. The configuration of a call is \<open>{ ...defaultConfig, ...options }\<close>: a key the
  options omit takes the default (timeout 30000, retries 3, retryDelay 1000, showLoading
  and showErrors true), a key they give wins, and the other keys pass through. What the
  call does follows the merged values. With \<open>T\<close>, \<open>R\<close> and \<open>D\<close> the merged timeout,
  retries and retry delay, and \<open>k\<close> the number of attempts: every attempt activates the
  indicator (none when \<open>showLoading\<close> is \<open>false\<close>), sets its timer to \<open>T\<close> and issues the
  network call; a wait of \<open>D\<close> separates two attempts; \<open>k\<close> is at least 1 and at most
  \<open>R + 1\<close>, so at most four with no options; the only notification is one error
  notification at the end, and none when \<open>showErrors\<close> is \<open>false\<close>. Against a server that
  keeps answering with one status that is not \<open>ok\<close> and has no digit \<open>4\<close>, there are
  exactly \<open>R + 1\<close> attempts, and the notification carries the message of the last failure.
  The call first cancels the pending requests to its URL unless \<open>cancelPending\<close> is
  \<open>false\<close>: the effects of that cancellation come first, then those of the first attempt,
  and the entry is registered in the map that \<open>cancelPendingRequest\<close> leaves, or in the map
  as it was when \<open>cancelPending\<close> is \<open>false\<close>.
\<close>

theorem effective_configuration:
  "let config = spread defaultConfig opts;
       T = (case timeout opts of Some v \<Rightarrow> v | None \<Rightarrow> 30000);
       R = (case retries opts of Some v \<Rightarrow> v | None \<Rightarrow> 3);
       D = (case retryDelay opts of Some v \<Rightarrow> v | None \<Rightarrow> 1000);
       indicator = (if showLoading opts = Some False then None
                    else resolve_loading env (opts\<lparr>showLoading := Some True\<rparr>));
       label = (case loadingText opts of Some t \<Rightarrow> t | None \<Rightarrow> ''Loading...'');
       steps = (case indicator of Some el \<Rightarrow> [Shows el label] | None \<Rightarrow> []) @
               [Timer (Some T), Fetches u (requestOptions config)];
       st' = snd (makeRequest env u opts st);
       k = calls st' - calls st
   in timeout config = Some T \<and>
      retries config = Some R \<and>
      retryDelay config = Some D \<and>
      showLoading config = Some (case showLoading opts of Some v \<Rightarrow> v | None \<Rightarrow> True) \<and>
      showErrors config = Some (case showErrors opts of Some v \<Rightarrow> v | None \<Rightarrow> True) \<and>
      cancelPending config = cancelPending opts \<and>
      http_method config = http_method opts \<and>
      headers config = headers opts \<and>
      data config = data opts \<and>
      loadingElement config = loadingElement opts \<and>
      loadingText config = loadingText opts \<and>
      successCallback config = successCallback opts \<and>
      errorCallback config = errorCallback opts \<and>
      fetches (snd (makeRequest env u no_options st)) \<le> fetches st + 4 \<and>
      pr_url (fst (makeRequest_begin env u config st)) = u \<and>
      pendingRequests (snd (makeRequest_begin env u config st)) =
        AList.update (requestId (attempts env (calls st)))
          (fst (makeRequest_begin env u config st))
          (pendingRequests
             (if cancelPending opts = Some False then st else cancelPendingRequest u st)) \<and>
      1 \<le> k \<and> k \<le> Suc (nat R) \<and> fetches st' = fetches st + k \<and>
      (\<exists>fin. schedule st' =
               schedule st @ steps @ concat (replicate (k - 1) (Waits (Some D) # steps)) @ fin \<and>
             (fin = [] \<or>
              showErrors opts \<noteq> Some False \<and> (\<exists>m. fin = [Notifies (JStr m) ''danger'']))) \<and>
      (\<forall>r. (\<forall>j. network (attempts env j) = Responds r) \<and> \<not> ok r \<and>
           CHR ''4'' \<notin> set (string_of_nat (status r)) \<longrightarrow>
         k = Suc (nat R) \<and>
         schedule st' =
           schedule st @ steps @ concat (replicate (nat R) (Waits (Some D) # steps)) @
           (if showErrors opts = Some False then []
            else [Notifies (JStr (''HTTP error! status: '' @ string_of_nat (status r)))
                    ''danger''])) \<and>
      (\<exists>es. effects st' =
              effects st @
              (if cancelPending opts = Some False then []
               else concat (map (cancel_effects \<circ> snd)
                              (filter (cancelled_by u) (pendingRequests st)))) @
              (case indicator of Some el \<Rightarrow> [ShowLoading el label] | None \<Rightarrow> []) @
              [SetTimeout (Suc (nextHandle st)) (Some T),
               Fetch u (requestOptions config)] @ es)"
proof -
  let ?config = "spread defaultConfig opts"
  let ?T = "case timeout opts of Some v \<Rightarrow> v | None \<Rightarrow> 30000"
  let ?R = "case retries opts of Some v \<Rightarrow> v | None \<Rightarrow> 3"
  let ?D = "case retryDelay opts of Some v \<Rightarrow> v | None \<Rightarrow> 1000"
  let ?indicator = "if showLoading opts = Some False then None
                    else resolve_loading env (opts\<lparr>showLoading := Some True\<rparr>)"
  let ?label = "case loadingText opts of Some t \<Rightarrow> t | None \<Rightarrow> ''Loading...''"
  let ?steps = "(case ?indicator of Some el \<Rightarrow> [Shows el ?label] | None \<Rightarrow> []) @
               [Timer (Some ?T), Fetches u (requestOptions ?config)]"
  let ?st' = "snd (makeRequest env u opts st)"
  let ?k = "calls ?st' - calls st"
  note fields = spread_default_fields [of opts]
  note through = spread_default_through [of opts]
  have "retry_budget no_options = 3"
    by (simp add: retry_budget_def spread_def override_def defaultConfig_def no_options_def)
  then have four: "fetches (snd (makeRequest env u no_options st)) \<le> fetches st + 4"
    using makeRequest_attempts_bound [of env u no_options st]
      makeRequest_counts [of st env u no_options] by simp
  have reg1: "pr_url (fst (makeRequest_begin env u ?config st)) = u"
    by (simp add: makeRequest_begin_def Let_def split: option.splits)
  have reg2: "pendingRequests (snd (makeRequest_begin env u ?config st)) =
        AList.update (requestId (attempts env (calls st)))
          (fst (makeRequest_begin env u ?config st))
          (pendingRequests
             (if cancelPending opts = Some False then st else cancelPendingRequest u st))"
    by (simp add: makeRequest_begin_def Let_def through split: option.splits)
  note cnt = makeRequest_counts [of st env u opts]
  have k1: "1 \<le> ?k" using cnt by linarith
  have k2: "?k \<le> Suc (nat ?R)"
    using makeRequest_attempts_bound [of env u opts st] by (simp add: retry_budget_merged)
  have k3: "fetches ?st' = fetches st + ?k" using cnt by linarith
  have steps: "attempt_steps env u ?config = ?steps"
    by (simp add: attempt_steps_merged resolve_loading_merged)
  obtain fin where fin: "schedule ?st' =
        schedule st @ ?steps @ concat (replicate (?k - 1) (Waits (Some ?D) # ?steps)) @ fin"
    and shape: "fin = [] \<or>
        showErrors opts \<noteq> Some False \<and> (\<exists>m. fin = [Notifies (JStr m) ''danger''])"
    and failing: "\<forall>r. (\<forall>j. network (attempts env j) = Responds r) \<and> \<not> ok r \<and>
          CHR ''4'' \<notin> set (string_of_nat (status r)) \<longrightarrow>
        fin = (if showErrors opts \<noteq> Some False
               then [Notifies (JStr (''HTTP error! status: '' @ string_of_nat (status r)))
                       ''danger'']
               else [])"
    using makeRequest_schedule [of env u opts st]
    unfolding steps spread_default_flags fields(3) by blast
  have sched: "\<exists>fin. schedule ?st' =
        schedule st @ ?steps @ concat (replicate (?k - 1) (Waits (Some ?D) # ?steps)) @ fin \<and>
      (fin = [] \<or>
       showErrors opts \<noteq> Some False \<and> (\<exists>m. fin = [Notifies (JStr m) ''danger'']))"
    using fin shape by blast
  have persistent: "\<forall>r. (\<forall>j. network (attempts env j) = Responds r) \<and> \<not> ok r \<and>
        CHR ''4'' \<notin> set (string_of_nat (status r)) \<longrightarrow>
      ?k = Suc (nat ?R) \<and>
      schedule ?st' =
        schedule st @ ?steps @ concat (replicate (nat ?R) (Waits (Some ?D) # ?steps)) @
        (if showErrors opts = Some False then []
         else [Notifies (JStr (''HTTP error! status: '' @ string_of_nat (status r)))
                 ''danger''])"
  proof (intro allI impI)
    fix r
    assume h: "(\<forall>j. network (attempts env j) = Responds r) \<and> \<not> ok r \<and>
        CHR ''4'' \<notin> set (string_of_nat (status r))"
    then have "\<forall>k. \<exists>r. network (attempts env k) = Responds r \<and> \<not> ok r \<and>
        CHR ''4'' \<notin> set (string_of_nat (status r))" by blast
    from server_error_retried [OF this, of u opts st]
    have k: "?k = Suc (nat ?R)" by (simp add: retry_budget_merged)
    have f: "fin = (if showErrors opts = Some False then []
         else [Notifies (JStr (''HTTP error! status: '' @ string_of_nat (status r)))
                 ''danger''])"
      using failing h by simp
    show "?k = Suc (nat ?R) \<and>
      schedule ?st' =
        schedule st @ ?steps @ concat (replicate (nat ?R) (Waits (Some ?D) # ?steps)) @
        (if showErrors opts = Some False then []
         else [Notifies (JStr (''HTTP error! status: '' @ string_of_nat (status r)))
                 ''danger''])"
      using k fin unfolding f by simp
  qed
  have first: "\<exists>es. effects ?st' =
      effects st @
      (if cancelPending opts = Some False then []
       else concat (map (cancel_effects \<circ> snd)
                      (filter (cancelled_by u) (pendingRequests st)))) @
      (case ?indicator of Some el \<Rightarrow> [ShowLoading el ?label] | None \<Rightarrow> []) @
      [SetTimeout (Suc (nextHandle st)) (Some ?T),
       Fetch u (requestOptions ?config)] @ es"
    using makeRequest_first_effects [of env u opts st]
    unfolding resolve_loading_merged .
  show ?thesis
    unfolding Let_def
    by (intro conjI)
      (fact fields through four reg1 reg2 k1 k2 k3 sched persistent first)+
qed

theorem effective_configuration_witness:
  "schedule (snd (makeRequest (answering (Responds (example_response 500))) ''/api''
                    no_options initial)) =
     [Timer (Some 30000), Fetches ''/api'' (requestOptions no_options), Waits (Some 1000),
      Timer (Some 30000), Fetches ''/api'' (requestOptions no_options), Waits (Some 1000),
      Timer (Some 30000), Fetches ''/api'' (requestOptions no_options), Waits (Some 1000),
      Timer (Some 30000), Fetches ''/api'' (requestOptions no_options),
      Notifies (JStr ''HTTP error! status: 500'') ''danger''] \<and>
   calls (snd (makeRequest (answering (Responds (example_response 500))) ''/api''
                 no_options initial)) = 4 \<and>
   schedule (snd (makeRequest (answering (Responds (example_response 500))) ''/api''
                    (no_options\<lparr>timeout := Some 5000, retries := Some 1,
                       retryDelay := Some 50, showErrors := Some False\<rparr>) initial)) =
     [Timer (Some 5000), Fetches ''/api'' (requestOptions no_options), Waits (Some 50),
      Timer (Some 5000), Fetches ''/api'' (requestOptions no_options)] \<and>
   calls (snd (makeRequest (answering (Responds (example_response 500))) ''/api''
                 (no_options\<lparr>timeout := Some 5000, retries := Some 1,
                    retryDelay := Some 50, showErrors := Some False\<rparr>) initial)) = 2"
proof -
  let ?env = "answering (Responds (example_response 500))"
  let ?opts = "no_options\<lparr>timeout := Some 5000, retries := Some 1,
                 retryDelay := Some 50, showErrors := Some False\<rparr>"
  have h: "(\<forall>j. network (attempts ?env j) = Responds (example_response 500)) \<and>
      \<not> ok (example_response 500) \<and>
      CHR ''4'' \<notin> set (string_of_nat (status (example_response 500)))"
    by (simp add: answering_def example_response_def ok_def string_of_nat.simps digit_def)
  have none: "resolve_loading ?env (no_options\<lparr>showLoading := Some True\<rparr>) = None"
    "resolve_loading ?env (?opts\<lparr>showLoading := Some True\<rparr>) = None"
    by (simp_all add: resolve_loading_def no_options_def)
  have ro: "requestOptions (spread defaultConfig no_options) = requestOptions no_options"
    "requestOptions (spread defaultConfig ?opts) = requestOptions no_options"
    by (simp_all add: requestOptions_def spread_def override_def defaultConfig_def
        no_options_def)
  have init: "schedule initial = []" "calls initial = 0"
    by (simp_all add: schedule_def initial_def)
  have msg: "string_of_nat (status (example_response 500)) = ''500''"
    by (simp add: example_response_def string_of_nat.simps digit_def)
  have given: "timeout no_options = None" "retries no_options = None"
    "retryDelay no_options = None" "showErrors no_options = None"
    "showLoading no_options = None"
    "timeout ?opts = Some 5000" "retries ?opts = Some 1"
    "retryDelay ?opts = Some 50" "showErrors ?opts = Some False"
    "showLoading ?opts = None"
    by (simp_all add: no_options_def)
  note a = effective_configuration
    [where opts = no_options and env = ?env and u = "''/api''" and st = initial,
     unfolded Let_def, THEN conjunct2, THEN conjunct2, THEN conjunct2, THEN conjunct2, THEN conjunct2,
     THEN conjunct2, THEN conjunct2, THEN conjunct2, THEN conjunct2, THEN conjunct2,
     THEN conjunct2, THEN conjunct2, THEN conjunct2, THEN conjunct2, THEN conjunct2,
     THEN conjunct2, THEN conjunct2, THEN conjunct2, THEN conjunct2, THEN conjunct2,
     THEN conjunct1, THEN spec, THEN mp, OF h]
  note b = effective_configuration
    [where opts = ?opts and env = ?env and u = "''/api''" and st = initial,
     unfolded Let_def, THEN conjunct2, THEN conjunct2, THEN conjunct2, THEN conjunct2, THEN conjunct2,
     THEN conjunct2, THEN conjunct2, THEN conjunct2, THEN conjunct2, THEN conjunct2,
     THEN conjunct2, THEN conjunct2, THEN conjunct2, THEN conjunct2, THEN conjunct2,
     THEN conjunct2, THEN conjunct2, THEN conjunct2, THEN conjunct2, THEN conjunct2,
     THEN conjunct1, THEN spec, THEN mp, OF h]
  have four: "calls (snd (makeRequest ?env ''/api'' no_options initial)) = 4"
    using a by (simp add: init given)
  have two: "calls (snd (makeRequest ?env ''/api'' ?opts initial)) = 2"
    using b by (simp add: init given)
  show ?thesis
    using a b four two
    by (simp add: none ro init msg given numeral_3_eq_3)
qed

end
